theory Spec2Isabelle
  imports Complex_Main
begin

section \<open>Strings\<close>

text \<open>
  JavaScript strings are modelled as \<^typ>\<open>string\<close>: one \<^typ>\<open>char\<close> per code unit,
  restricted to the code units below 256.  The line terminators U+2028 and U+2029 and
  the Unicode space separators above U+00A0 are therefore outside the model.
\<close>

definition LF :: char where
  "LF = CHR 0x0A"

definition CR :: char where
  "CR = CHR 0x0D"

text \<open>\<^verbatim>\<open>s.startsWith(p)\<close>.\<close>

fun startsWith :: "string \<Rightarrow> string \<Rightarrow> bool" where
  "startsWith s [] = True"
| "startsWith [] (p # ps) = False"
| "startsWith (c # cs) (p # ps) = (c = p \<and> startsWith cs ps)"

text \<open>
  \<^verbatim>\<open>s.split('\n')\<close>: never empty; the empty string gives one empty line.  (The
  rest of a string always splits into at least one line, so the last case is never taken.)
\<close>

fun split_nl :: "string \<Rightarrow> string list" where
  "split_nl [] = [[]]"
| "split_nl (c # cs) =
     (if c = LF then [] # split_nl cs
      else (case split_nl cs of
              l # ls \<Rightarrow> (c # l) # ls
            | [] \<Rightarrow> [[c]]))"

text \<open>\<^verbatim>\<open>ls.join('\n')\<close>: the empty array gives the empty string.\<close>

fun join_nl :: "string list \<Rightarrow> string" where
  "join_nl [] = []"
| "join_nl [l] = l"
| "join_nl (l # m # ls) = l @ LF # join_nl (m # ls)"

text \<open>The regular-expression class \<^verbatim>\<open>\d\<close> (ASCII digits only, no \<^verbatim>\<open>u\<close> flag).\<close>

definition isDigit :: "char \<Rightarrow> bool" where
  "isDigit c = (48 \<le> (of_char c :: nat) \<and> (of_char c :: nat) \<le> 57)"

text \<open>
  The integer that a string of digits denotes.  \<^verbatim>\<open>parseInt(ds, 10)\<close> on a non-empty
  string of digits is the number that stands for this integer (\<open>toNumber\<close>, in the next
  section): the nearest double.
\<close>

definition digitsValue :: "string \<Rightarrow> int" where
  "digitsValue ds = foldl (\<lambda>n c. 10 * n + (int (of_char c) - 48)) 0 ds"

text \<open>If \<open>s\<close> starts with \<open>p\<close>, what follows; \<open>None\<close> otherwise.\<close>

fun stripPrefix :: "string \<Rightarrow> string \<Rightarrow> string option" where
  "stripPrefix [] s = Some s"
| "stripPrefix (p # ps) [] = None"
| "stripPrefix (p # ps) (c # cs) = (if c = p then stripPrefix ps cs else None)"

section \<open>Numbers\<close>

text \<open>
  A JavaScript number is an IEEE 754 double.  A finite double is modelled by the real
  number that it denotes; the two infinities and \<^verbatim>\<open>NaN\<close> are values of their own.  The
  sign of a zero is not modelled: the divisors of the program are thresholds, lengths and
  constants, never \<open>-0\<close>, and no other operation of the program tells \<open>-0\<close> from \<open>0\<close>.
\<close>

datatype jsnum = Fin real | PosInf | NegInf | NaN

text \<open>The nearest integer, a tie going to the even one.\<close>

definition roundEven :: "real \<Rightarrow> int" where
  "roundEven y =
     (if y - of_int \<lfloor>y\<rfloor> < 1 / 2 then \<lfloor>y\<rfloor>
      else if 1 / 2 < y - of_int \<lfloor>y\<rfloor> then \<lfloor>y\<rfloor> + 1
      else if even \<lfloor>y\<rfloor> then \<lfloor>y\<rfloor>
      else \<lfloor>y\<rfloor> + 1)"

text \<open>
  The exponent of the doubles around a positive \<open>x\<close>: the \<open>e\<close> with
  \<open>2^e \<le> x < 2^(e+1)\<close>, but not below \<open>-1022\<close> (the subnormal numbers) and not above 1023.
  It is found by halving an \<open>x\<close> that is 2 or more at most 1023 times, and by doubling an
  \<open>x\<close> below 1 at most 1022 times.
\<close>

fun expoUp :: "nat \<Rightarrow> real \<Rightarrow> int" where
  "expoUp 0 x = 0"
| "expoUp (Suc n) x = (if x < 2 then 0 else 1 + expoUp n (x / 2))"

fun expoDown :: "nat \<Rightarrow> real \<Rightarrow> int" where
  "expoDown 0 x = 0"
| "expoDown (Suc n) x = (if 1 \<le> x then 0 else expoDown n (x * 2) - 1)"

definition exponentOf :: "real \<Rightarrow> int" where
  "exponentOf x = (if 1 \<le> x then expoUp 1023 x else expoDown 1022 x)"

text \<open>
  The doubles around \<open>x\<close> are the multiples of \<open>quantum x\<close>: a double has 53 significant
  bits.  \<open>rd x\<close> is the multiple nearest to \<open>x\<close>, a tie going to the even multiple.
\<close>

definition quantum :: "real \<Rightarrow> real" where
  "quantum x = 2 powi (exponentOf x - 52)"

definition rdPos :: "real \<Rightarrow> real" where
  "rdPos x = of_int (roundEven (x / quantum x)) * quantum x"

definition rd :: "real \<Rightarrow> real" where
  "rd x = (if x = 0 then 0 else if x < 0 then - rdPos (- x) else rdPos x)"

text \<open>
  The double that stands for the real \<open>x\<close>: the nearest one, and an infinity when the
  rounded magnitude reaches \<open>2^1024\<close>.  Every arithmetic operation on doubles returns the
  double that stands for the exact result.
\<close>

definition toDouble :: "real \<Rightarrow> jsnum" where
  "toDouble x =
     (if 2 ^ 1024 \<le> \<bar>x\<bar> \<or> 2 ^ 1024 \<le> \<bar>rd x\<bar> then (if 0 < x then PosInf else NegInf)
      else Fin (rd x))"

text \<open>The number that an integer becomes: a count, a length, the value of a string of digits.\<close>

definition toNumber :: "int \<Rightarrow> jsnum" where
  "toNumber n = toDouble (of_int n)"

text \<open>\<^verbatim>\<open>-a\<close>, \<^verbatim>\<open>a + b\<close>, \<^verbatim>\<open>a - b\<close>, \<^verbatim>\<open>a * b\<close> and \<^verbatim>\<open>a / b\<close>.\<close>

fun jsNeg :: "jsnum \<Rightarrow> jsnum" where
  "jsNeg (Fin x) = Fin (- x)"
| "jsNeg PosInf = NegInf"
| "jsNeg NegInf = PosInf"
| "jsNeg NaN = NaN"

fun jsAdd :: "jsnum \<Rightarrow> jsnum \<Rightarrow> jsnum" where
  "jsAdd (Fin x) (Fin y) = toDouble (x + y)"
| "jsAdd NaN b = NaN"
| "jsAdd a NaN = NaN"
| "jsAdd PosInf NegInf = NaN"
| "jsAdd NegInf PosInf = NaN"
| "jsAdd PosInf b = PosInf"
| "jsAdd a PosInf = PosInf"
| "jsAdd NegInf b = NegInf"
| "jsAdd a NegInf = NegInf"

definition jsSub :: "jsnum \<Rightarrow> jsnum \<Rightarrow> jsnum" where
  "jsSub a b = jsAdd a (jsNeg b)"


fun jsDiv :: "jsnum \<Rightarrow> jsnum \<Rightarrow> jsnum" where
  "jsDiv (Fin x) (Fin y) =
     (if y = 0 then (if x = 0 then NaN else if 0 < x then PosInf else NegInf)
      else toDouble (x / y))"
| "jsDiv NaN b = NaN"
| "jsDiv a NaN = NaN"
| "jsDiv (Fin x) PosInf = Fin 0"
| "jsDiv (Fin x) NegInf = Fin 0"
| "jsDiv PosInf (Fin y) = (if 0 \<le> y then PosInf else NegInf)"
| "jsDiv NegInf (Fin y) = (if 0 \<le> y then NegInf else PosInf)"
| "jsDiv PosInf b = NaN"
| "jsDiv NegInf b = NaN"



section \<open>The diff parser (src/parsers/diff.ts)\<close>

record RawHunk =
  oldStart :: jsnum
  oldLines :: jsnum
  newStart :: jsnum
  newLines :: jsnum
  lines :: "string list"

text \<open>
  \<^verbatim>\<open>DiffHunk\<close> and \<^verbatim>\<open>DiffFile\<close> both have fields \<^verbatim>\<open>filename\<close>, \<^verbatim>\<open>additions\<close> and
  \<^verbatim>\<open>deletions\<close>; the hunk's carry the prefix \<open>hk_\<close> here.
\<close>

record DiffHunk =
  hk_filename :: string
  startLine :: jsnum
  endLine :: jsnum
  content :: string
  hk_additions :: "string list"
  hk_deletions :: "string list"
  hk_context :: string

record DiffFile =
  filename :: string
  hunks :: "DiffHunk list"
  additions :: nat
  deletions :: nat

record ParsedDiff =
  files :: "DiffFile list"

subsection \<open>The hunk-header pattern\<close>

text \<open>
  \<^verbatim>\<open>\d+\<close> at the head of \<open>s\<close>: the longest non-empty run of digits and what follows it.
  The pattern never needs a shorter run: what follows \<^verbatim>\<open>\d+\<close> in it is a comma or a
  space, and the character after the longest run is the only one that is not a digit.
\<close>

definition number :: "string \<Rightarrow> (string \<times> string) option" where
  "number s =
     (if takeWhile isDigit s = [] then None
      else Some (takeWhile isDigit s, dropWhile isDigit s))"

text \<open>
  The optional group \<^verbatim>\<open>(?:,(\d+))?\<close>: taken when a comma and a digit follow, skipped
  otherwise.
\<close>

definition optCount :: "string \<Rightarrow> string option \<times> string" where
  "optCount s =
     (case s of
        [] \<Rightarrow> (None, s)
      | c # t \<Rightarrow>
          (if c = CHR '','' then
             (case number t of
                None \<Rightarrow> (None, s)
              | Some (ds, r) \<Rightarrow> (Some ds, r))
           else (None, s)))"

text \<open>
  \<^verbatim>\<open>/@@ -(\d+)(?:,(\d+))? \+(\d+)(?:,(\d+))? @@/\<close> matched at the head of \<open>s\<close>, and the
  raw hunk that \<^verbatim>\<open>parseDiff\<close> builds from the groups with \<^verbatim>\<open>parseInt(m, 10)\<close>: a count
  that is absent is 1.
\<close>

definition hunkHeaderAt :: "string \<Rightarrow> RawHunk option" where
  "hunkHeaderAt s =
     (case stripPrefix ''@@ -'' s of
        None \<Rightarrow> None
      | Some r0 \<Rightarrow>
     (case number r0 of
        None \<Rightarrow> None
      | Some (m1, r1) \<Rightarrow>
     (case optCount r1 of (m2, r2) \<Rightarrow>
     (case stripPrefix '' +'' r2 of
        None \<Rightarrow> None
      | Some r3 \<Rightarrow>
     (case number r3 of
        None \<Rightarrow> None
      | Some (m3, r4) \<Rightarrow>
     (case optCount r4 of (m4, r5) \<Rightarrow>
     (case stripPrefix '' @@'' r5 of
        None \<Rightarrow> None
      | Some r6 \<Rightarrow>
          Some \<lparr> oldStart = toNumber (digitsValue m1),
                 oldLines = (case m2 of None \<Rightarrow> Fin 1 | Some ds \<Rightarrow> toNumber (digitsValue ds)),
                 newStart = toNumber (digitsValue m3),
                 newLines = (case m4 of None \<Rightarrow> Fin 1 | Some ds \<Rightarrow> toNumber (digitsValue ds)),
                 lines = [] \<rparr>)))))))"

text \<open>\<^verbatim>\<open>line.match(...)\<close> is not anchored: the leftmost position that matches wins.\<close>

fun matchHunkHeader :: "string \<Rightarrow> RawHunk option" where
  "matchHunkHeader s =
     (case hunkHeaderAt s of
        Some r \<Rightarrow> Some r
      | None \<Rightarrow> (case s of [] \<Rightarrow> None | c # cs \<Rightarrow> matchHunkHeader cs))"

subsection \<open>The file-header pattern\<close>

text \<open>A \<^verbatim>\<open>.\<close> of a regular expression matches everything but a line terminator.\<close>

definition isLineTerminator :: "char \<Rightarrow> bool" where
  "isLineTerminator c = (c = LF \<or> c = CR)"

text \<open>
  The second group of \<^verbatim>\<open>(.+) b\/(.+)\<close> on a run of characters without line
  terminators, the first group having taken at least one character already.  Both groups
  are greedy: the first one gives back characters until \<^verbatim>\<open> b/\<close> and one more character
  follow it, so the last such place in the run wins, and the second group is the rest of
  the run.
\<close>

fun afterLastB :: "string \<Rightarrow> string option" where
  "afterLastB [] = None"
| "afterLastB (c # cs) =
     (case afterLastB cs of
        Some g \<Rightarrow> Some g
      | None \<Rightarrow>
          (case stripPrefix '' b/'' (c # cs) of
             None \<Rightarrow> None
           | Some g \<Rightarrow> (if g = [] then None else Some g)))"

text \<open>\<^verbatim>\<open>/diff --git a\/(.+) b\/(.+)/\<close> matched at the head of \<open>s\<close>: the second group.\<close>

definition fileHeaderAt :: "string \<Rightarrow> string option" where
  "fileHeaderAt s =
     (case stripPrefix ''diff --git a/'' s of
        None \<Rightarrow> None
      | Some r \<Rightarrow>
          (case takeWhile (\<lambda>c. \<not> isLineTerminator c) r of
             [] \<Rightarrow> None
           | c # run \<Rightarrow> afterLastB run))"

fun matchFileHeader :: "string \<Rightarrow> string option" where
  "matchFileHeader s =
     (case fileHeaderAt s of
        Some g \<Rightarrow> Some g
      | None \<Rightarrow> (case s of [] \<Rightarrow> None | c # cs \<Rightarrow> matchFileHeader cs))"

subsection \<open>convertHunk\<close>

text \<open>A \<open>+\<close> line that is not a \<open>+++\<close> line, and a \<open>-\<close> line that is not a \<open>---\<close> line.\<close>

definition isAddition :: "string \<Rightarrow> bool" where
  "isAddition line = (startsWith line ''+'' \<and> \<not> startsWith line ''+++'')"

definition isDeletion :: "string \<Rightarrow> bool" where
  "isDeletion line = (startsWith line ''-'' \<and> \<not> startsWith line ''---'')"

text \<open>
  The loop of \<^verbatim>\<open>convertHunk\<close> over \<^verbatim>\<open>raw.lines\<close>, with its three arrays
  (additions, deletions, contentLines) as the accumulator.
\<close>

fun convertLines ::
  "string list \<Rightarrow> string list \<times> string list \<times> string list \<Rightarrow>
   string list \<times> string list \<times> string list" where
  "convertLines [] acc = acc"
| "convertLines (line # rest) (adds, dels, cont) =
     (if isAddition line then
        convertLines rest (adds @ [drop 1 line], dels, cont @ [line])
      else if isDeletion line then
        convertLines rest (adds, dels @ [drop 1 line], cont @ [line])
      else if startsWith line '' '' \<or> line = [] then
        convertLines rest (adds, dels, cont @ [line])
      else convertLines rest (adds, dels, cont))"

definition convertHunk :: "RawHunk \<Rightarrow> string \<Rightarrow> DiffHunk" where
  "convertHunk raw fname =
     (case convertLines (lines raw) ([], [], []) of
        (adds, dels, cont) \<Rightarrow>
          \<lparr> hk_filename = fname,
            startLine = newStart raw,
            endLine = jsSub (jsAdd (newStart raw) (newLines raw)) (Fin 1),
            content = join_nl cont,
            hk_additions = adds,
            hk_deletions = dels,
            hk_context = [] \<rparr>)"

subsection \<open>parseDiff\<close>

text \<open>The mutable state of the scan: the result so far, the open file, the open hunk.\<close>

record ParserState =
  doneFiles :: "DiffFile list"
  currentFile :: "DiffFile option"
  currentHunk :: "RawHunk option"

text \<open>
  \<^verbatim>\<open>if (currentFile && currentHunk) currentFile.hunks.push(convertHunk(...))\<close>: the open
  file after the push.
\<close>

definition pushHunk :: "DiffFile option \<Rightarrow> RawHunk option \<Rightarrow> DiffFile option" where
  "pushHunk cf ch =
     (case cf of
        None \<Rightarrow> None
      | Some f \<Rightarrow>
          (case ch of
             None \<Rightarrow> Some f
           | Some h \<Rightarrow> Some (f\<lparr>hunks := hunks f @ [convertHunk h (filename f)]\<rparr>)))"

text \<open>\<^verbatim>\<open>if (currentFile) files.push(currentFile)\<close>.\<close>

definition pushFile :: "DiffFile list \<Rightarrow> DiffFile option \<Rightarrow> DiffFile list" where
  "pushFile fs cf = (case cf of None \<Rightarrow> fs | Some f \<Rightarrow> fs @ [f])"

text \<open>The counters of the open file, after a content line.\<close>

definition countLine :: "string \<Rightarrow> DiffFile \<Rightarrow> DiffFile" where
  "countLine line f =
     (if isAddition line then f\<lparr>additions := additions f + 1\<rparr>
      else if isDeletion line then f\<lparr>deletions := deletions f + 1\<rparr>
      else f)"

definition isContentLine :: "string \<Rightarrow> bool" where
  "isContentLine line =
     (startsWith line ''+'' \<or> startsWith line ''-'' \<or> startsWith line '' '' \<or> line = [])"

text \<open>One turn of the \<^verbatim>\<open>while\<close> loop of \<^verbatim>\<open>parseDiff\<close>, on the line \<^verbatim>\<open>lines[i]\<close>.\<close>

definition parseLine :: "ParserState \<Rightarrow> string \<Rightarrow> ParserState" where
  "parseLine st line =
     (if startsWith line ''diff --git'' then
        \<lparr> doneFiles = pushFile (doneFiles st) (pushHunk (currentFile st) (currentHunk st)),
          currentFile =
            Some \<lparr> filename = (case matchFileHeader line of None \<Rightarrow> ''unknown'' | Some g \<Rightarrow> g),
                   hunks = [], additions = 0, deletions = 0 \<rparr>,
          currentHunk = None \<rparr>
      else if startsWith line ''index '' \<or> startsWith line ''---'' \<or> startsWith line ''+++''
      then st
      else if startsWith line ''@@'' then
        st\<lparr> currentFile := pushHunk (currentFile st) (currentHunk st),
            currentHunk :=
              (case matchHunkHeader line of
                 None \<Rightarrow> currentHunk st
               | Some raw \<Rightarrow> Some raw) \<rparr>
      else
        (case currentHunk st of
           None \<Rightarrow> st
         | Some h \<Rightarrow>
             (if isContentLine line then
                st\<lparr> currentHunk := Some (h\<lparr>lines := lines h @ [line]\<rparr>),
                    currentFile := map_option (countLine line) (currentFile st) \<rparr>
              else st)))"

definition initialState :: ParserState where
  "initialState = \<lparr> doneFiles = [], currentFile = None, currentHunk = None \<rparr>"

text \<open>The two pushes after the loop.\<close>

definition finish :: "ParserState \<Rightarrow> ParsedDiff" where
  "finish st =
     \<lparr> files = pushFile (doneFiles st) (pushHunk (currentFile st) (currentHunk st)) \<rparr>"

definition parseDiff :: "string \<Rightarrow> ParsedDiff" where
  "parseDiff diffText = finish (foldl parseLine initialState (split_nl diffText))"

section \<open>The complexity analyzer (src/analyzers/complexity.ts)\<close>

subsection \<open>Regular expressions\<close>

text \<open>
  The patterns of \<^verbatim>\<open>calculateCyclomaticComplexity\<close> are sequences of single characters,
  the classes \<^verbatim>\<open>\s\<close> and \<^verbatim>\<open>[^:]\<close>, each once or under a greedy \<^verbatim>\<open>*\<close> or \<^verbatim>\<open>+\<close>, and
  the assertion \<^verbatim>\<open>\b\<close>.
\<close>

datatype CharClass = Lit char | Space | NotChar char

datatype Item = One CharClass | Star CharClass | Plus CharClass | WordB

text \<open>\<^verbatim>\<open>\s\<close> and the characters \<^verbatim>\<open>trim()\<close> removes, among the code units below 256.\<close>

definition isSpace :: "char \<Rightarrow> bool" where
  "isSpace c =
     (c = CHR 0x09 \<or> c = CHR 0x0A \<or> c = CHR 0x0B \<or> c = CHR 0x0C \<or> c = CHR 0x0D \<or>
      c = CHR 0x20 \<or> c = CHR 0xA0)"

text \<open>\<^verbatim>\<open>\w\<close>: letters, digits and the underscore.\<close>

definition isWordChar :: "char \<Rightarrow> bool" where
  "isWordChar c =
     (let n = (of_char c :: nat)
      in (48 \<le> n \<and> n \<le> 57) \<or> (65 \<le> n \<and> n \<le> 90) \<or> (97 \<le> n \<and> n \<le> 122) \<or> n = 95)"

fun inClass :: "CharClass \<Rightarrow> char \<Rightarrow> bool" where
  "inClass (Lit a) c = (c = a)"
| "inClass Space c = isSpace c"
| "inClass (NotChar a) c = (c \<noteq> a)"

text \<open>The two sides of a position: the start and the end of the input are no word characters.\<close>

fun wordBefore :: "char option \<Rightarrow> bool" where
  "wordBefore None = False"
| "wordBefore (Some c) = isWordChar c"

fun wordAfter :: "string \<Rightarrow> bool" where
  "wordAfter [] = False"
| "wordAfter (c # cs) = isWordChar c"

text \<open>
  The backtracking matcher, at one position: \<open>prev\<close> is the character before the
  position, \<open>s\<close> the input from the position on.  The result is what is left of the input
  after the match.  A greedy quantifier takes one more character first and gives it back
  when the rest of the pattern fails.
\<close>

fun matchItems :: "Item list \<Rightarrow> char option \<Rightarrow> string \<Rightarrow> string option" where
  "matchItems [] prev s = Some s"
| "matchItems (WordB # r) prev s =
     (if wordBefore prev \<noteq> wordAfter s then matchItems r prev s else None)"
| "matchItems (One k # r) prev [] = None"
| "matchItems (One k # r) prev (c # cs) =
     (if inClass k c then matchItems r (Some c) cs else None)"
| "matchItems (Star k # r) prev [] = matchItems r prev []"
| "matchItems (Star k # r) prev (c # cs) =
     (if inClass k c then
        (case matchItems (Star k # r) (Some c) cs of
           Some t \<Rightarrow> Some t
         | None \<Rightarrow> matchItems r prev (c # cs))
      else matchItems r prev (c # cs))"
| "matchItems (Plus k # r) prev [] = None"
| "matchItems (Plus k # r) prev (c # cs) =
     (if inClass k c then matchItems (Star k # r) (Some c) cs else None)"

text \<open>
  \<^verbatim>\<open>(code.match(re) || []).length\<close> for a pattern with the \<^verbatim>\<open>g\<close> flag: the matches are
  taken from left to right, each search starting where the last match ended (one
  character further after an empty match).
\<close>

fun countMatches :: "Item list \<Rightarrow> char option \<Rightarrow> string \<Rightarrow> nat" where
  "countMatches re prev s =
     (case matchItems re prev s of
        Some t \<Rightarrow>
          (if length t < length s then
             1 + countMatches re (Some (s ! (length s - length t - 1))) t
           else (case s of [] \<Rightarrow> 1 | c # cs \<Rightarrow> 1 + countMatches re (Some c) cs))
      | None \<Rightarrow> (case s of [] \<Rightarrow> 0 | c # cs \<Rightarrow> countMatches re (Some c) cs))"

definition lits :: "string \<Rightarrow> Item list" where
  "lits s = map (\<lambda>c. One (Lit c)) s"

subsection \<open>calculateCyclomaticComplexity\<close>

definition decisionPatterns :: "Item list list" where
  "decisionPatterns =
     [ WordB # lits ''if'' @ [Star Space, One (Lit CHR ''('')],
       WordB # lits ''else'' @ [Plus Space] @ lits ''if'' @ [Star Space, One (Lit CHR ''('')],
       WordB # lits ''for'' @ [Star Space, One (Lit CHR ''('')],
       WordB # lits ''while'' @ [Star Space, One (Lit CHR ''('')],
       WordB # lits ''case'' @ [Plus Space],
       WordB # lits ''catch'' @ [Star Space, One (Lit CHR ''('')],
       [One (Lit CHR ''?''), Star Space, One (NotChar CHR '':'')],
       lits ''&&'',
       lits ''||'',
       lits ''??'' ]"

text \<open>The loop over the patterns, \<open>complexity\<close> being the accumulator; it starts at 1.\<close>

definition calculateCyclomaticComplexity :: "string \<Rightarrow> nat" where
  "calculateCyclomaticComplexity code =
     foldl (\<lambda>complexity pattern. complexity + countMatches pattern None code) 1 decisionPatterns"

subsection \<open>Metrics, thresholds and flags\<close>

datatype MetricName =
  NestingDepth | CyclomaticComplexity | ParameterCount | LineCount | DependencyCount

record ComplexityMetrics =
  nestingDepth :: nat
  cyclomaticComplexity :: nat
  parameterCount :: nat
  lineCount :: nat
  dependencyCount :: nat

text \<open>
  \<^verbatim>\<open>ComplexityThresholds\<close> (types.ts) has the five field names of the metrics; they carry
  the prefix \<open>t_\<close> here.  The thresholds are integers.
\<close>

record ComplexityThresholds =
  t_nestingDepth :: int
  t_cyclomaticComplexity :: int
  t_parameterCount :: int
  t_lineCount :: int
  t_dependencyCount :: int

datatype Severity = Warning | Critical

record ComplexityFlag =
  metric :: MetricName
  fl_value :: nat
  threshold :: int
  severity :: Severity

text \<open>\<^verbatim>\<open>metrics[metric]\<close>.\<close>

fun metricOf :: "ComplexityMetrics \<Rightarrow> MetricName \<Rightarrow> nat" where
  "metricOf m NestingDepth = nestingDepth m"
| "metricOf m CyclomaticComplexity = cyclomaticComplexity m"
| "metricOf m ParameterCount = parameterCount m"
| "metricOf m LineCount = lineCount m"
| "metricOf m DependencyCount = dependencyCount m"

text \<open>The array \<^verbatim>\<open>checks\<close> of \<^verbatim>\<open>checkThresholds\<close>.\<close>

definition checks :: "ComplexityThresholds \<Rightarrow> (MetricName \<times> int) list" where
  "checks t =
     [ (NestingDepth, t_nestingDepth t),
       (CyclomaticComplexity, t_cyclomaticComplexity t),
       (ParameterCount, t_parameterCount t),
       (LineCount, t_lineCount t),
       (DependencyCount, t_dependencyCount t) ]"

text \<open>The loop of \<^verbatim>\<open>checkThresholds\<close> over \<^verbatim>\<open>checks\<close>, with \<^verbatim>\<open>flags\<close> as the accumulator.\<close>

fun checkLoop ::
  "ComplexityMetrics \<Rightarrow> (MetricName \<times> int) list \<Rightarrow> ComplexityFlag list \<Rightarrow> ComplexityFlag list"
where
  "checkLoop m [] flags = flags"
| "checkLoop m ((k, th) # rest) flags =
     (if int (metricOf m k) > th then
        checkLoop m rest
          (flags @
            [\<lparr> metric = k, fl_value = metricOf m k, threshold = th,
               severity =
                 (if real (metricOf m k) > real_of_int th * 1.5 then Critical else Warning) \<rparr>])
      else checkLoop m rest flags)"

definition checkThresholds :: "ComplexityMetrics \<Rightarrow> ComplexityThresholds \<Rightarrow> ComplexityFlag list" where
  "checkThresholds m t = checkLoop m (checks t) []"

subsection \<open>calculateScore\<close>







section \<open>The analysis of the hunks (src/index.ts)\<close>

subsection \<open>The records of the report\<close>

text \<open>
  The wall clock is not modelled: \<^verbatim>\<open>processingTime\<close> and \<^verbatim>\<open>totalProcessingTime\<close> are
  left out of the records.
\<close>

record Summary =
  what :: string
  why :: string
  watch :: "string list"

record PatternFinding =
  ptype :: string
  plines :: "int list"
  issue :: string
  simplerAlternative :: "string option"

record PatternAnalysis =
  patternsFound :: "PatternFinding list"
  overallAiLikelihood :: string
  keyQuestion :: "string option"

record ComplexityAnalysis =
  score :: jsnum
  metrics :: ComplexityMetrics
  flags :: "ComplexityFlag list"
  suggestions :: "string list"

record HunkAnalysis =
  hunk :: DiffHunk
  summary :: "Summary option"
  patterns :: "PatternAnalysis option"
  complexity :: "ComplexityAnalysis option"

record FileAnalysis =
  fa_filename :: string
  fa_hunks :: "HunkAnalysis list"
  overallComplexity :: jsnum

datatype Likelihood = Low | Medium | High

record ReviewResult =
  rr_files :: "FileAnalysis list"
  totalHunks :: nat
  aiCodeLikelihood :: Likelihood

text \<open>The options of the command line that the analysis reads.\<close>

record Options =
  opt_summary :: bool
  opt_patterns :: bool
  opt_complexity :: bool
  opt_maxHunks :: string
  opt_model :: string

subsection \<open>The external reviewer (src/api/claude.ts)\<close>

text \<open>
  \<^verbatim>\<open>generateSummary(hunkContent, context, filename, model)\<close> and
  \<^verbatim>\<open>detectPatterns(code, filename, model)\<close> call the network.  Each call reads and changes
  the world \<open>'w\<close>, and either throws (\<open>Inl\<close>, with the message of the error) or returns.
\<close>

record 'w Reviewer =
  generateSummary :: "string \<Rightarrow> string \<Rightarrow> string \<Rightarrow> string \<Rightarrow> 'w \<Rightarrow> (string + Summary) \<times> 'w"
  detectPatterns :: "string \<Rightarrow> string \<Rightarrow> string \<Rightarrow> 'w \<Rightarrow> (string + PatternAnalysis) \<times> 'w"

subsection \<open>analyzeHunk\<close>

text \<open>\<^verbatim>\<open>!s.trim()\<close>: nothing but white space.\<close>

definition isBlank :: "string \<Rightarrow> bool" where
  "isBlank s = list_all isSpace s"

text \<open>
  The three steps of \<^verbatim>\<open>analyzeHunk\<close>.  \<^verbatim>\<open>analyzeComplexity\<close> (with the default thresholds
  of types.ts) is a parameter, a function of the code: it is pure and does not throw, and
  \<^verbatim>\<open>analyzeHunk\<close> stores its result and reads nothing of it.  Only the calls of the
  reviewer stand in a \<^verbatim>\<open>try\<close>; a call that throws leaves the field as it was.
\<close>

definition complexityStep ::
  "(string \<Rightarrow> ComplexityAnalysis) \<Rightarrow> Options \<Rightarrow> DiffHunk \<Rightarrow> HunkAnalysis \<Rightarrow> HunkAnalysis" where
  "complexityStep analyzeComplexity opts hk r =
     (if opt_complexity opts then
        (if isBlank (join_nl (hk_additions hk @ hk_deletions hk)) then r
         else r\<lparr>complexity := Some (analyzeComplexity (join_nl (hk_additions hk @ hk_deletions hk)))\<rparr>)
      else r)"

definition summaryStep ::
  "'w Reviewer \<Rightarrow> Options \<Rightarrow> DiffHunk \<Rightarrow> string \<Rightarrow> HunkAnalysis \<times> 'w \<Rightarrow> HunkAnalysis \<times> 'w" where
  "summaryStep rv opts hk fname rw =
     (case rw of (r, w) \<Rightarrow>
        (if opt_summary opts then
           (case generateSummary rv (content hk) (hk_context hk) fname (opt_model opts) w of
              (Inr s, w') \<Rightarrow> (r\<lparr>summary := Some s\<rparr>, w')
            | (Inl e, w') \<Rightarrow> (r, w'))
         else (r, w)))"

definition patternsStep ::
  "'w Reviewer \<Rightarrow> Options \<Rightarrow> DiffHunk \<Rightarrow> string \<Rightarrow> HunkAnalysis \<times> 'w \<Rightarrow> HunkAnalysis \<times> 'w" where
  "patternsStep rv opts hk fname rw =
     (case rw of (r, w) \<Rightarrow>
        (if opt_patterns opts then
           (if isBlank (join_nl (hk_additions hk)) then (r, w)
            else
              (case detectPatterns rv (join_nl (hk_additions hk)) fname (opt_model opts) w of
                 (Inr p, w') \<Rightarrow> (r\<lparr>patterns := Some p\<rparr>, w')
               | (Inl e, w') \<Rightarrow> (r, w')))
         else (r, w)))"

definition analyzeHunk ::
  "'w Reviewer \<Rightarrow> (string \<Rightarrow> ComplexityAnalysis) \<Rightarrow> DiffHunk \<Rightarrow> string \<Rightarrow> Options \<Rightarrow> 'w \<Rightarrow>
   HunkAnalysis \<times> 'w" where
  "analyzeHunk rv analyzeComplexity hk fname opts w =
     patternsStep rv opts hk fname
       (summaryStep rv opts hk fname
         (complexityStep analyzeComplexity opts hk
            \<lparr> hunk = hk, summary = None, patterns = None, complexity = None \<rparr>, w))"

subsection \<open>runReview\<close>

text \<open>
  \<^verbatim>\<open>parseInt(s, 10)\<close>: white space, a sign, digits; \<open>None\<close> is \<^verbatim>\<open>NaN\<close> (no digit).
\<close>

definition parseInt10 :: "string \<Rightarrow> int option" where
  "parseInt10 s =
     (case dropWhile isSpace s of
        [] \<Rightarrow> None
      | c # r \<Rightarrow>
          (if c = CHR ''-'' then
             (if takeWhile isDigit r = [] then None else Some (- digitsValue (takeWhile isDigit r)))
           else if c = CHR ''+'' then
             (if takeWhile isDigit r = [] then None else Some (digitsValue (takeWhile isDigit r)))
           else
             (if takeWhile isDigit (c # r) = [] then None
              else Some (digitsValue (takeWhile isDigit (c # r))))))"

text \<open>
  \<^verbatim>\<open>xs.slice(0, maxHunks - processedHunks)\<close>: a negative end counts from the end of the
  array, and \<^verbatim>\<open>NaN\<close> is 0.
\<close>

definition sliceTo :: "'a list \<Rightarrow> int option \<Rightarrow> 'a list" where
  "sliceTo xs e =
     (case e of
        None \<Rightarrow> []
      | Some k \<Rightarrow> (if k < 0 then take (nat (int (length xs) + k)) xs else take (nat k) xs))"

text \<open>\<^verbatim>\<open>processedHunks >= maxHunks\<close>: false when \<^verbatim>\<open>maxHunks\<close> is \<^verbatim>\<open>NaN\<close>.\<close>

definition budgetSpent :: "nat \<Rightarrow> int option \<Rightarrow> bool" where
  "budgetSpent processedHunks maxHunks =
     (case maxHunks of None \<Rightarrow> False | Some k \<Rightarrow> int processedHunks \<ge> k)"

text \<open>The variables of the two loops of \<^verbatim>\<open>runReview\<close>, and the world.\<close>

record 'w LoopState =
  fileAnalyses :: "FileAnalysis list"
  ls_totalHunks :: nat
  processedHunks :: nat
  world :: 'w

text \<open>
  The inner loop, over the slice of \<^verbatim>\<open>file.hunks\<close>; \<open>has\<close> is \<^verbatim>\<open>hunkAnalyses\<close>.  The
  first case with a spent budget is the \<^verbatim>\<open>break\<close>.
\<close>

fun hunkLoop ::
  "'w Reviewer \<Rightarrow> (string \<Rightarrow> ComplexityAnalysis) \<Rightarrow> Options \<Rightarrow> int option \<Rightarrow> string \<Rightarrow>
   DiffHunk list \<Rightarrow> HunkAnalysis list \<times> 'w LoopState \<Rightarrow> HunkAnalysis list \<times> 'w LoopState" where
  "hunkLoop rv ac opts maxHunks fname [] acc = acc"
| "hunkLoop rv ac opts maxHunks fname (hk # rest) (has, st) =
     (if budgetSpent (processedHunks st) maxHunks then (has, st)
      else
        (case analyzeHunk rv ac hk fname opts (world st) of
           (analysis, w') \<Rightarrow>
             hunkLoop rv ac opts maxHunks fname rest
               (has @ [analysis],
                st\<lparr> processedHunks := processedHunks st + 1,
                    ls_totalHunks := ls_totalHunks st + 1,
                    world := w' \<rparr>)))"

text \<open>
  The mean of the scores of the hunks that have a complexity, 0 when there is none:
  \<^verbatim>\<open>complexities.reduce((a, b) => a + b, 0) / complexities.length\<close>.
\<close>

definition meanComplexity :: "HunkAnalysis list \<Rightarrow> jsnum" where
  "meanComplexity has =
     (let complexities = map score (List.map_filter complexity has)
      in if length complexities > 0
         then jsDiv (foldl jsAdd (Fin 0) complexities) (toNumber (int (length complexities)))
         else Fin 0)"

text \<open>One turn of the outer loop, on one file.\<close>

definition fileStep ::
  "'w Reviewer \<Rightarrow> (string \<Rightarrow> ComplexityAnalysis) \<Rightarrow> Options \<Rightarrow> int option \<Rightarrow>
   'w LoopState \<Rightarrow> DiffFile \<Rightarrow> 'w LoopState" where
  "fileStep rv ac opts maxHunks st file =
     (case hunkLoop rv ac opts maxHunks (filename file)
             (sliceTo (hunks file) (map_option (\<lambda>k. k - int (processedHunks st)) maxHunks))
             ([], st) of
        (has, st') \<Rightarrow>
          st'\<lparr> fileAnalyses :=
                 fileAnalyses st' @
                   [\<lparr> fa_filename = filename file, fa_hunks = has,
                      overallComplexity = meanComplexity has \<rparr>] \<rparr>)"

text \<open>\<^verbatim>\<open>h.patterns?.patternsFound || []\<close>.\<close>

definition findingsOf :: "HunkAnalysis \<Rightarrow> PatternFinding list" where
  "findingsOf h = (case patterns h of None \<Rightarrow> [] | Some p \<Rightarrow> patternsFound p)"

definition allPatterns :: "FileAnalysis list \<Rightarrow> PatternFinding list" where
  "allPatterns fas = concat (map (\<lambda>f. concat (map findingsOf (fa_hunks f))) fas)"

definition aiLikelihood :: "FileAnalysis list \<Rightarrow> Likelihood" where
  "aiLikelihood fas =
     (if length (allPatterns fas) > 5 then High
      else if length (allPatterns fas) > 2 then Medium
      else Low)"

text \<open>\<^verbatim>\<open>/\.(tsx?|jsx?)$/.test(filename)\<close>.\<close>

definition endsWith :: "string \<Rightarrow> string \<Rightarrow> bool" where
  "endsWith s p = startsWith (rev s) (rev p)"

definition isTypeScriptFile :: "string \<Rightarrow> bool" where
  "isTypeScriptFile fname =
     (endsWith fname ''.ts'' \<or> endsWith fname ''.tsx'' \<or>
      endsWith fname ''.js'' \<or> endsWith fname ''.jsx'')"

text \<open>The two ways out of \<^verbatim>\<open>runReview\<close> before the analysis, by \<^verbatim>\<open>process.exit\<close>.\<close>

datatype Exit = NoDiffContent | NoSourceFiles

text \<open>
  When the client of the reviewer cannot be set up (\<^verbatim>\<open>initClaudeClient\<close> throws), the
  summary and the patterns are switched off.
\<close>

definition effectiveOptions :: "bool \<Rightarrow> Options \<Rightarrow> Options" where
  "effectiveOptions clientReady opts =
     (if (opt_summary opts \<or> opt_patterns opts) \<and> \<not> clientReady
      then opts\<lparr> opt_summary := False, opt_patterns := False \<rparr>
      else opts)"

text \<open>The analysis of the filtered files: the two loops and the result.\<close>

definition analyzeFiles ::
  "'w Reviewer \<Rightarrow> (string \<Rightarrow> ComplexityAnalysis) \<Rightarrow> Options \<Rightarrow> DiffFile list \<Rightarrow> 'w \<Rightarrow>
   ReviewResult \<times> 'w" where
  "analyzeFiles rv ac opts tsFiles w =
     (case foldl (fileStep rv ac opts (parseInt10 (opt_maxHunks opts)))
             \<lparr> fileAnalyses = [], ls_totalHunks = 0, processedHunks = 0, world = w \<rparr>
             tsFiles of
        st \<Rightarrow>
          (\<lparr> rr_files = fileAnalyses st,
             totalHunks = ls_totalHunks st,
             aiCodeLikelihood = aiLikelihood (fileAnalyses st) \<rparr>,
           world st))"

text \<open>
  \<^verbatim>\<open>runReview\<close>, from the text of the diff (what \<^verbatim>\<open>getDiffContent\<close> returned) to the
  result that is printed.  The formatters are not modelled.
\<close>

definition runReview ::
  "'w Reviewer \<Rightarrow> (string \<Rightarrow> ComplexityAnalysis) \<Rightarrow> bool \<Rightarrow> string \<Rightarrow> Options \<Rightarrow> 'w \<Rightarrow>
   (Exit + ReviewResult) \<times> 'w" where
  "runReview rv ac clientReady diffContent opts w =
     (if isBlank diffContent then (Inl NoDiffContent, w)
      else
        (case filter (\<lambda>f. isTypeScriptFile (filename f)) (files (parseDiff diffContent)) of
           [] \<Rightarrow> (Inl NoSourceFiles, w)
         | f # fs \<Rightarrow>
             (case analyzeFiles rv ac (effectiveOptions clientReady opts) (f # fs) w of
                (result, w') \<Rightarrow> (Inr result, w'))))"

text \<open>The exit code after the report: 1 is the signal for CI.\<close>

definition exitCode :: "ReviewResult \<Rightarrow> nat" where
  "exitCode result =
     (if aiCodeLikelihood result = High \<and> length (allPatterns (rr_files result)) > 10
      then 1 else 0)"

section \<open>Definitions for the statements\<close>

subsection \<open>Numbers\<close>


fun boundedLe :: "int \<Rightarrow> jsnum \<Rightarrow> jsnum \<Rightarrow> bool" where
  "boundedLe k (Fin x) (Fin y) = (0 \<le> x \<and> x \<le> y \<and> y \<le> of_int k)"
| "boundedLe k a b = False"


subsection \<open>Hunk headers\<close>

text \<open>
  A hunk header as the specification writes it,
  \<^verbatim>\<open>@@ -oldStart[,oldLines] +newStart[,newLines] @@\<close>: the text of an optional count, its
  value (1 when it is missing), and what a number is.
\<close>

definition optText :: "string option \<Rightarrow> string" where
  "optText m = (case m of None \<Rightarrow> [] | Some ds \<Rightarrow> CHR '','' # ds)"

definition countOr1 :: "string option \<Rightarrow> int" where
  "countOr1 m = (case m of None \<Rightarrow> 1 | Some ds \<Rightarrow> digitsValue ds)"

definition digitString :: "string \<Rightarrow> bool" where
  "digitString ds = (ds \<noteq> [] \<and> list_all isDigit ds)"

definition optDigitString :: "string option \<Rightarrow> bool" where
  "optDigitString m = (case m of None \<Rightarrow> True | Some ds \<Rightarrow> digitString ds)"



subsection \<open>Flags and scores\<close>

text \<open>\<^verbatim>\<open>thresholds[metric]\<close>, and the flag that \<^verbatim>\<open>checkThresholds\<close> pushes for a check.\<close>

definition thresholdOf :: "ComplexityThresholds \<Rightarrow> MetricName \<Rightarrow> int" where
  "thresholdOf t k =
     (case k of
        NestingDepth \<Rightarrow> t_nestingDepth t
      | CyclomaticComplexity \<Rightarrow> t_cyclomaticComplexity t
      | ParameterCount \<Rightarrow> t_parameterCount t
      | LineCount \<Rightarrow> t_lineCount t
      | DependencyCount \<Rightarrow> t_dependencyCount t)"

definition flagOf :: "ComplexityMetrics \<Rightarrow> MetricName \<times> int \<Rightarrow> ComplexityFlag" where
  "flagOf m c =
     (case c of (k, th) \<Rightarrow>
        \<lparr> metric = k, fl_value = metricOf m k, threshold = th,
          severity = (if real (metricOf m k) > real_of_int th * 1.5 then Critical else Warning) \<rparr>)"

text \<open>Sample metrics and thresholds.\<close>

definition sampleMetrics :: ComplexityMetrics where
  "sampleMetrics =
     \<lparr> nestingDepth = 4, cyclomaticComplexity = 16, parameterCount = 2,
       lineCount = 50, dependencyCount = 15 \<rparr>"

definition sampleThresholds :: ComplexityThresholds where
  "sampleThresholds =
     \<lparr> t_nestingDepth = 3, t_cyclomaticComplexity = 10, t_parameterCount = 4,
       t_lineCount = 50, t_dependencyCount = 10 \<rparr>"






subsection \<open>Hunks and files\<close>

text \<open>
  The line classifier of the claim on re-parsing: the lines that start with \<open>+\<close> but not
  \<open>+++\<close> are the additions, those that start with \<open>-\<close> but not \<open>---\<close> the deletions,
  each with its marker stripped.
\<close>

definition reclassify :: "string list \<Rightarrow> string list \<times> string list" where
  "reclassify ls = (map (drop 1) (filter isAddition ls), map (drop 1) (filter isDeletion ls))"

definition hunkRoundTrip :: "DiffHunk \<Rightarrow> bool" where
  "hunkRoundTrip h = (reclassify (split_nl (content h)) = (hk_additions h, hk_deletions h))"

text \<open>The counters of a file are the totals of its hunks.\<close>

definition balanced :: "DiffFile \<Rightarrow> bool" where
  "balanced f =
     (additions f = sum_list (map (\<lambda>h. length (hk_additions h)) (hunks f)) \<and>
      deletions f = sum_list (map (\<lambda>h. length (hk_deletions h)) (hunks f)))"

text \<open>
  What a valid unified diff has, as far as the counters need it: every line that starts
  with \<open>@@\<close> is a hunk header, one that the pattern matches.
\<close>

definition wellFormedHeaders :: "string \<Rightarrow> bool" where
  "wellFormedHeaders diffText =
     list_all (\<lambda>line. startsWith line ''@@'' \<longrightarrow> matchHunkHeader line \<noteq> None)
       (split_nl diffText)"

text \<open>The kinds of lines that \<^verbatim>\<open>parseDiff\<close> tells apart, and the lines \<^verbatim>\<open>convertHunk\<close> keeps.\<close>

definition isFileHeader :: "string \<Rightarrow> bool" where
  "isFileHeader line = startsWith line ''diff --git''"

definition isSkipped :: "string \<Rightarrow> bool" where
  "isSkipped line =
     (startsWith line ''index '' \<or> startsWith line ''---'' \<or> startsWith line ''+++'')"

definition kept :: "string \<Rightarrow> bool" where
  "kept l = (isAddition l \<or> isDeletion l \<or> startsWith l '' '' \<or> l = [])"

text \<open>
  The invariants of the scan.  The first: the hunks pushed so far give their additions
  and deletions back, and the lines of the open hunk hold no line feed.  The second: the
  counters of the files pushed so far are the totals of their hunks, and those of the
  open file are the totals of its hunks and of the lines of the open hunk.
\<close>

definition inv10 :: "ParserState \<Rightarrow> bool" where
  "inv10 st =
     ((\<forall>f\<in>set (doneFiles st). \<forall>h\<in>set (hunks f). hunkRoundTrip h) \<and>
      (\<forall>f. currentFile st = Some f \<longrightarrow> (\<forall>h\<in>set (hunks f). hunkRoundTrip h)) \<and>
      (\<forall>r. currentHunk st = Some r \<longrightarrow> (\<forall>l\<in>set (lines r). LF \<notin> set l)))"

definition pendingAdditions :: "RawHunk option \<Rightarrow> nat" where
  "pendingAdditions ch =
     (case ch of None \<Rightarrow> 0 | Some r \<Rightarrow> length (filter isAddition (lines r)))"

definition pendingDeletions :: "RawHunk option \<Rightarrow> nat" where
  "pendingDeletions ch =
     (case ch of None \<Rightarrow> 0 | Some r \<Rightarrow> length (filter isDeletion (lines r)))"

definition openBalanced :: "DiffFile \<Rightarrow> RawHunk option \<Rightarrow> bool" where
  "openBalanced f ch =
     (additions f =
        sum_list (map (\<lambda>h. length (hk_additions h)) (hunks f)) + pendingAdditions ch \<and>
      deletions f =
        sum_list (map (\<lambda>h. length (hk_deletions h)) (hunks f)) + pendingDeletions ch)"

definition inv2 :: "ParserState \<Rightarrow> bool" where
  "inv2 st =
     ((\<forall>f\<in>set (doneFiles st). balanced f) \<and>
      (\<forall>f. currentFile st = Some f \<longrightarrow> openBalanced f (currentHunk st)))"





subsection \<open>The report\<close>

text \<open>
  The report in the words of the claims: the files of interest of a diff, the hunks that
  were analysed, the budget as a count (0 for a negative number and for \<^verbatim>\<open>NaN\<close>), and
  the number of pattern findings of all hunks of all files.
\<close>

definition sourceFiles :: "string \<Rightarrow> DiffFile list" where
  "sourceFiles diffContent =
     filter (\<lambda>f. isTypeScriptFile (filename f)) (files (parseDiff diffContent))"

definition analysedHunks :: "FileAnalysis list \<Rightarrow> DiffHunk list" where
  "analysedHunks fas = map hunk (concat (map fa_hunks fas))"

definition budget :: "int option \<Rightarrow> nat" where
  "budget maxHunks = (case maxHunks of None \<Rightarrow> 0 | Some k \<Rightarrow> nat k)"

definition totalFindings :: "ReviewResult \<Rightarrow> nat" where
  "totalFindings result =
     sum_list
       (map (\<lambda>f. sum_list
                   (map (\<lambda>h. case patterns h of None \<Rightarrow> 0 | Some p \<Rightarrow> length (patternsFound p))
                        (fa_hunks f)))
            (rr_files result))"

subsection \<open>Sample inputs\<close>

text \<open>Diffs, a hunk, reviewers, and a stand-in for the complexity analyzer.\<close>

definition sampleDiff :: string where
  "sampleDiff = join_nl
     [''diff --git a/src/x.ts b/src/x.ts'',
      ''index 1a2b3c..4d5e6f 100644'',
      ''--- a/src/x.ts'',
      ''+++ b/src/x.ts'',
      ''@@ -10,3 +10,5 @@ function f() {'',
      '' const a = 1;'',
      ''-return a;'',
      ''+const b = 2;'',
      ''+return a + b;'',
      ''@@ -40 +42,2 @@'',
      ''+// done'',
      []]"

definition malformedHeaderDiff :: string where
  "malformedHeaderDiff = join_nl
     [''diff --git a/x.ts b/x.ts'',
      ''@@ -1 +1,2 @@'',
      ''+a'',
      ''@@ bogus'',
      ''+b'']"

definition repairedHeaderDiff :: string where
  "repairedHeaderDiff = join_nl
     [''diff --git a/x.ts b/x.ts'',
      ''@@ -1 +1,2 @@'',
      ''+a'',
      ''+b'']"

definition budgetDiff :: string where
  "budgetDiff = join_nl
     ((''diff --git a/big.ts b/big.ts'' # concat (replicate 15 [''@@ -1 +1,2 @@'', ''+x''])) @
      (''diff --git a/other.ts b/other.ts'' # concat (replicate 10 [''@@ -1 +1,2 @@'', ''+y''])))"


definition sampleFinding :: PatternFinding where
  "sampleFinding =
     \<lparr> ptype = ''verbose-comments'', plines = [1],
       issue = ''the comment restates the code'', simplerAlternative = None \<rparr>"

definition samplePatterns :: PatternAnalysis where
  "samplePatterns =
     \<lparr> patternsFound = [sampleFinding, sampleFinding],
       overallAiLikelihood = ''medium'', keyQuestion = None \<rparr>"

text \<open>
  Two reviewers; the world counts their calls.  With the first the network is down, and
  every call throws; with the second only the summaries fail.
\<close>

definition offlineReviewer :: "nat Reviewer" where
  "offlineReviewer =
     \<lparr> generateSummary = (\<lambda>hunkContent ctx fname model n. (Inl ''network error'', n + 1)),
       detectPatterns = (\<lambda>code fname model n. (Inl ''network error'', n + 1)) \<rparr>"

definition summaryDownReviewer :: "nat Reviewer" where
  "summaryDownReviewer =
     \<lparr> generateSummary = (\<lambda>hunkContent ctx fname model n. (Inl ''network error'', n + 1)),
       detectPatterns = (\<lambda>code fname model n. (Inr samplePatterns, n + 1)) \<rparr>"

definition sampleAnalyzer :: "string \<Rightarrow> ComplexityAnalysis" where
  "sampleAnalyzer code =
     \<lparr> score = Fin 1,
       metrics = \<lparr> nestingDepth = 0, cyclomaticComplexity = 1, parameterCount = 0,
                   lineCount = 1, dependencyCount = 0 \<rparr>,
       flags = [], suggestions = [] \<rparr>"

definition sampleOptions :: Options where
  "sampleOptions =
     \<lparr> opt_summary = True, opt_patterns = True, opt_complexity = True,
       opt_maxHunks = ''20'', opt_model = ''claude-sonnet-4-20250514'' \<rparr>"

section \<open>Properties\<close>

subsection \<open>Doubles\<close>

lemma expoUp_props:
  "1 \<le> x \<Longrightarrow>
     0 \<le> expoUp n x \<and> expoUp n x \<le> int n \<and> 2 powi (expoUp n x) \<le> x \<and>
     (expoUp n x < int n \<longrightarrow> x < 2 powi (expoUp n x + 1))"
proof (induction n arbitrary: x)
  case 0
  then show ?case by simp
next
  case (Suc n)
  show ?case
  proof (cases "x < 2")
    case True
    then show ?thesis using Suc.prems by simp
  next
    case False
    then have h: "1 \<le> x / 2" by simp
    note ih = Suc.IH[OF h]
    have e: "expoUp (Suc n) x = 1 + expoUp n (x / 2)" using False by simp
    have a: "(2::real) powi (1 + expoUp n (x / 2)) = 2 * 2 powi (expoUp n (x / 2))"
      by (simp add: power_int_add)
    have b: "(2::real) powi (1 + expoUp n (x / 2) + 1) = 2 * 2 powi (expoUp n (x / 2) + 1)"
      by (simp add: power_int_add)
    show ?thesis unfolding e a b using ih by auto
  qed
qed

lemma expoDown_ge1: "1 \<le> y \<Longrightarrow> expoDown n y = 0"
  by (cases n) simp_all

lemma expoDown_props:
  "0 < x \<Longrightarrow> x < 1 \<Longrightarrow>
     - int n \<le> expoDown n x \<and> expoDown n x \<le> 0 \<and>
     (- int n < expoDown n x \<longrightarrow> 2 powi (expoDown n x) \<le> x) \<and>
     x < 2 powi (expoDown n x + 1)"
proof (induction n arbitrary: x)
  case 0
  then show ?case by simp
next
  case (Suc n)
  have e: "expoDown (Suc n) x = expoDown n (x * 2) - 1" using Suc.prems by simp
  show ?case
  proof (cases "1 \<le> x * 2")
    case True
    then have "expoDown (Suc n) x = - 1" using e expoDown_ge1 by simp
    then show ?thesis using True Suc.prems by simp
  next
    case False
    then have h: "0 < x * 2" "x * 2 < 1" using Suc.prems by simp_all
    note ih = Suc.IH[OF h]
    have a: "(2::real) powi (expoDown n (x * 2) - 1) = 2 powi (expoDown n (x * 2)) / 2"
      by (simp add: power_int_diff)
    have b: "(2::real) powi (expoDown n (x * 2) - 1 + 1) = 2 powi (expoDown n (x * 2) + 1) / 2"
      by (simp add: power_int_add)
    show ?thesis unfolding e a b using ih by auto
  qed
qed

lemma exponentOf_props:
  assumes "0 < x"
  shows "- 1022 \<le> exponentOf x" "exponentOf x \<le> 1023"
    "- 1022 < exponentOf x \<Longrightarrow> 2 powi (exponentOf x) \<le> x"
    "exponentOf x < 1023 \<Longrightarrow> x < 2 powi (exponentOf x + 1)"
proof -
  have "- 1022 \<le> exponentOf x \<and> exponentOf x \<le> 1023 \<and>
        (- 1022 < exponentOf x \<longrightarrow> 2 powi (exponentOf x) \<le> x) \<and>
        (exponentOf x < 1023 \<longrightarrow> x < 2 powi (exponentOf x + 1))"
  proof (cases "1 \<le> x")
    case True
    then show ?thesis using expoUp_props[OF True, of 1023] by (simp add: exponentOf_def)
  next
    case False
    then have "x < 1" by simp
    then show ?thesis using expoDown_props[OF assms, of 1022] by (simp add: exponentOf_def)
  qed
  then show "- 1022 \<le> exponentOf x" "exponentOf x \<le> 1023"
    "- 1022 < exponentOf x \<Longrightarrow> 2 powi (exponentOf x) \<le> x"
    "exponentOf x < 1023 \<Longrightarrow> x < 2 powi (exponentOf x + 1)" by simp_all
qed

lemma pow2_le: "a \<le> b \<Longrightarrow> (2::real) powi a \<le> 2 powi b"
  by (rule power_int_increasing) simp_all


lemma exponentOf_mono:
  assumes "0 < x" "x \<le> y"
  shows "exponentOf x \<le> exponentOf y"
proof (rule ccontr)
  assume "\<not> exponentOf x \<le> exponentOf y"
  then have l: "exponentOf y < exponentOf x" by simp
  have y: "0 < y" using assms by simp
  note p = exponentOf_props[OF assms(1)] and q = exponentOf_props[OF y]
  have "2 powi (exponentOf x) \<le> x" "y < 2 powi (exponentOf y + 1)" using l p q by auto
  moreover have "(2::real) powi (exponentOf y + 1) \<le> 2 powi (exponentOf x)"
    using l by (intro pow2_le) simp
  ultimately show False using assms by simp
qed

lemma roundEven_range: "\<lfloor>y\<rfloor> \<le> roundEven y \<and> roundEven y \<le> \<lfloor>y\<rfloor> + 1"
  by (simp add: roundEven_def)

lemma roundEven_int: "roundEven (of_int k) = k"
  by (simp add: roundEven_def)

lemma roundEven_mono:
  assumes "a \<le> b"
  shows "roundEven a \<le> roundEven b"
proof (cases "\<lfloor>a\<rfloor> = \<lfloor>b\<rfloor>")
  case True
  then show ?thesis using assms by (auto simp add: roundEven_def)
next
  case False
  then have "\<lfloor>a\<rfloor> + 1 \<le> \<lfloor>b\<rfloor>" using floor_mono[OF assms] by simp
  then show ?thesis using roundEven_range[of a] roundEven_range[of b] by linarith
qed


lemma quantum_pos: "0 < quantum x"
  by (simp add: quantum_def zero_less_power_int)

lemma quantum_lo: "2 powi (exponentOf x) = 2 ^ 52 * quantum x"
proof -
  have "(2::real) powi (52 + (exponentOf x - 52)) = 2 powi 52 * 2 powi (exponentOf x - 52)"
    by (rule power_int_add) simp
  then show ?thesis by (simp add: quantum_def)
qed

lemma quantum_hi: "2 powi (exponentOf x + 1) = 2 ^ 53 * quantum x"
proof -
  have "(2::real) powi (53 + (exponentOf x - 52)) = 2 powi 53 * 2 powi (exponentOf x - 52)"
    by (rule power_int_add) simp
  then show ?thesis by (simp add: quantum_def add.commute)
qed

lemma roundEven_ge: "of_int k \<le> y \<Longrightarrow> k \<le> roundEven y"
  using roundEven_mono[of "of_int k" y] by (simp add: roundEven_int)

lemma roundEven_le: "y \<le> of_int k \<Longrightarrow> roundEven y \<le> k"
  using roundEven_mono[of y "of_int k"] by (simp add: roundEven_int)

lemma rdPos_nonneg:
  assumes "0 < x"
  shows "0 \<le> rdPos x"
proof -
  have "of_int 0 \<le> x / quantum x" using assms quantum_pos[of x] by simp
  then have "0 \<le> roundEven (x / quantum x)" by (rule roundEven_ge)
  then show ?thesis using quantum_pos[of x] by (simp add: rdPos_def)
qed

lemma rdPos_lo:
  assumes "0 < x" "- 1022 < exponentOf x"
  shows "2 powi (exponentOf x) \<le> rdPos x"
proof -
  have "2 ^ 52 * quantum x \<le> x"
    using exponentOf_props(3)[OF assms] by (simp add: quantum_lo)
  then have "of_int (2 ^ 52) \<le> x / quantum x"
    using quantum_pos[of x] by (simp add: pos_le_divide_eq)
  then have "2 ^ 52 \<le> roundEven (x / quantum x)" by (rule roundEven_ge)
  then have "(2::real) ^ 52 \<le> of_int (roundEven (x / quantum x))"
    by (metis of_int_le_iff of_int_numeral of_int_power)
  then have "2 ^ 52 * quantum x \<le> of_int (roundEven (x / quantum x)) * quantum x"
    using quantum_pos[of x] by simp
  then show ?thesis by (simp add: rdPos_def quantum_lo)
qed

lemma rdPos_hi:
  assumes "0 < x" "exponentOf x < 1023"
  shows "rdPos x \<le> 2 powi (exponentOf x + 1)"
proof -
  have "x \<le> 2 ^ 53 * quantum x"
    using exponentOf_props(4)[OF assms] by (simp add: quantum_hi)
  then have "x / quantum x \<le> of_int (2 ^ 53)"
    using quantum_pos[of x] by (simp add: pos_divide_le_eq)
  then have "roundEven (x / quantum x) \<le> 2 ^ 53" by (rule roundEven_le)
  then have "of_int (roundEven (x / quantum x)) \<le> (2::real) ^ 53"
    by (metis of_int_le_iff of_int_numeral of_int_power)
  then have "of_int (roundEven (x / quantum x)) * quantum x \<le> 2 ^ 53 * quantum x"
    using quantum_pos[of x] by simp
  then show ?thesis by (simp add: rdPos_def quantum_hi)
qed

lemma rdPos_mono:
  assumes "0 < x" "x \<le> y"
  shows "rdPos x \<le> rdPos y"
proof (cases "exponentOf x = exponentOf y")
  case True
  then have q: "quantum y = quantum x" by (simp add: quantum_def)
  have "x / quantum x \<le> y / quantum x"
    using assms quantum_pos[of x] by (simp add: divide_right_mono)
  then have "roundEven (x / quantum x) \<le> roundEven (y / quantum x)" by (rule roundEven_mono)
  then have "of_int (roundEven (x / quantum x)) * quantum x
               \<le> of_int (roundEven (y / quantum x)) * quantum x"
    using quantum_pos[of x] by simp
  then show ?thesis by (simp add: rdPos_def q)
next
  case False
  have y: "0 < y" using assms by simp
  have l: "exponentOf x < exponentOf y" using False exponentOf_mono[OF assms] by simp
  have "rdPos x \<le> 2 powi (exponentOf x + 1)"
    using l exponentOf_props(2)[OF y] by (intro rdPos_hi assms) simp
  also have "\<dots> \<le> 2 powi (exponentOf y)" using l by (intro pow2_le) simp
  also have "\<dots> \<le> rdPos y"
    using l exponentOf_props(1)[OF assms(1)] by (intro rdPos_lo y) simp
  finally show ?thesis .
qed

lemma rd_mono:
  assumes "x \<le> y"
  shows "rd x \<le> rd y"
proof -
  consider "0 < x" | "x = 0" | "x < 0" "y < 0" | "x < 0" "0 \<le> y" by linarith
  then show ?thesis
  proof cases
    case 1
    then show ?thesis using assms rdPos_mono[OF 1 assms] by (simp add: rd_def)
  next
    case 2
    then show ?thesis using assms rdPos_nonneg[of y] by (auto simp add: rd_def)
  next
    case 3
    then have "0 < - y" "- y \<le> - x" using assms by simp_all
    then show ?thesis using 3 rdPos_mono[of "- y" "- x"] by (simp add: rd_def)
  next
    case 4
    then show ?thesis using rdPos_nonneg[of "- x"] rdPos_nonneg[of y] by (auto simp add: rd_def)
  qed
qed


lemma rd_minus: "rd (- x) = - rd x"
  by (simp add: rd_def)

lemma rdPos_exact:
  assumes "x / quantum x = of_int m"
  shows "rdPos x = x"
proof -
  have "rdPos x = x / quantum x * quantum x" by (simp add: rdPos_def assms roundEven_int)
  then show ?thesis using quantum_pos[of x] by simp
qed

lemma rdPos_int:
  assumes "0 < k" "k \<le> 2 ^ 53"
  shows "rdPos (of_int k) = of_int k"
proof -
  let ?x = "real_of_int k"
  have x: "0 < ?x" "1 \<le> ?x" using assms by simp_all
  note p = exponentOf_props[OF x(1)]
  have lo: "0 \<le> exponentOf ?x"
  proof (rule ccontr)
    assume "\<not> 0 \<le> exponentOf ?x"
    then have l: "exponentOf ?x < 0" by simp
    then have "?x < 2 powi (exponentOf ?x + 1)" using p(4) by simp
    also have "\<dots> \<le> 2 powi 0" using l by (intro pow2_le) simp
    finally show False using x by simp
  qed
  have k53: "?x \<le> 2 ^ 53"
    using assms(2) by (metis of_int_le_iff of_int_numeral of_int_power)
  have hi: "exponentOf ?x \<le> 53"
  proof (rule ccontr)
    assume "\<not> exponentOf ?x \<le> 53"
    then have l: "54 \<le> exponentOf ?x" by simp
    have "(2::real) powi 54 \<le> 2 powi (exponentOf ?x)" using l by (intro pow2_le)
    also have "\<dots> \<le> ?x" using l p(3) by simp
    finally show False using k53 by simp
  qed
  show ?thesis
  proof (cases "exponentOf ?x = 53")
    case True
    then have "2 powi 53 \<le> ?x" using p(3) by simp
    then have e: "?x = 2 ^ 53" using k53 by simp
    have "?x / quantum ?x = of_int (2 ^ 52)" unfolding quantum_def True by (simp add: e)
    then show ?thesis by (rule rdPos_exact)
  next
    case False
    then have l: "exponentOf ?x \<le> 52" using hi by simp
    have "quantum ?x = 1 / 2 powi (52 - exponentOf ?x)"
      unfolding quantum_def by (simp add: power_int_diff)
    also have "\<dots> = 1 / 2 ^ nat (52 - exponentOf ?x)"
      using l by (simp add: power_int_def)
    finally have "?x / quantum ?x = of_int (k * 2 ^ nat (52 - exponentOf ?x))" by simp
    then show ?thesis by (rule rdPos_exact)
  qed
qed

lemma rd_int:
  assumes "\<bar>k\<bar> \<le> 2 ^ 53"
  shows "rd (of_int k) = of_int k"
proof -
  consider "k = 0" | "0 < k" | "k < 0" by linarith
  then show ?thesis
  proof cases
    case 1
    then show ?thesis by (simp add: rd_def)
  next
    case 2
    then show ?thesis using assms rdPos_int[of k] by (simp add: rd_def)
  next
    case 3
    then have "0 < - k" "- k \<le> 2 ^ 53" using assms by simp_all
    then have "rdPos (of_int (- k)) = of_int (- k)" by (rule rdPos_int)
    then show ?thesis using 3 by (simp add: rd_def)
  qed
qed

lemma rd_bound:
  assumes "\<bar>x\<bar> \<le> of_int k" "k \<le> 2 ^ 53"
  shows "\<bar>rd x\<bar> \<le> of_int k"
proof -
  have k: "\<bar>k\<bar> \<le> 2 ^ 53" "\<bar>- k\<bar> \<le> 2 ^ 53" using assms by linarith+
  have "rd x \<le> rd (of_int k)" using assms by (intro rd_mono) simp
  moreover have "rd (of_int (- k)) \<le> rd x" using assms by (intro rd_mono) simp
  ultimately show ?thesis using rd_int[OF k(1)] rd_int[OF k(2)] by simp
qed

lemma toDouble_Fin:
  assumes "\<bar>x\<bar> \<le> 2 ^ 53"
  shows "toDouble x = Fin (rd x)"
proof -
  have "\<bar>x\<bar> \<le> of_int (2 ^ 53)" using assms by simp
  then have "\<bar>rd x\<bar> \<le> of_int (2 ^ 53)" by (rule rd_bound) simp
  then have "\<bar>rd x\<bar> \<le> 2 ^ 53" by simp
  moreover have "(2::real) ^ 53 < 2 ^ 1024" by simp
  ultimately have "\<not> (2 ^ 1024 \<le> \<bar>x\<bar> \<or> 2 ^ 1024 \<le> \<bar>rd x\<bar>)"
    using assms by linarith
  then show ?thesis unfolding toDouble_def by (rule if_not_P)
qed

lemma toDouble_int:
  assumes "\<bar>k\<bar> \<le> 2 ^ 53"
  shows "toDouble (of_int k) = Fin (of_int k)"
proof -
  have "\<bar>real_of_int k\<bar> \<le> 2 ^ 53"
    using assms by (metis of_int_abs of_int_le_iff of_int_numeral of_int_power)
  then show ?thesis using rd_int[OF assms] by (simp add: toDouble_Fin)
qed


lemma toDouble_code [code]:
  "toDouble x =
     (if x = of_int \<lfloor>x\<rfloor> \<and> \<bar>x\<bar> \<le> 9007199254740992 then Fin x
      else if 2 ^ 1024 \<le> \<bar>x\<bar> \<or> 2 ^ 1024 \<le> \<bar>rd x\<bar> then (if 0 < x then PosInf else NegInf)
      else Fin (rd x))"
proof (cases "x = of_int \<lfloor>x\<rfloor> \<and> \<bar>x\<bar> \<le> 9007199254740992")
  case True
  then have x: "x = of_int \<lfloor>x\<rfloor>" and b: "\<bar>x\<bar> \<le> 2 ^ 53" by simp_all
  have "\<bar>real_of_int \<lfloor>x\<rfloor>\<bar> \<le> 2 ^ 53" using x b by simp
  then have "\<bar>\<lfloor>x\<rfloor>\<bar> \<le> 2 ^ 53"
    by (metis of_int_abs of_int_le_iff of_int_numeral of_int_power)
  then have "toDouble (of_int \<lfloor>x\<rfloor>) = Fin (of_int \<lfloor>x\<rfloor>)" by (rule toDouble_int)
  then have "toDouble x = Fin x" using x by simp
  then show ?thesis using True by simp
next
  case False
  then show ?thesis unfolding toDouble_def by (simp only: if_False)
qed



lemma toNumber_safe: "\<bar>n\<bar> \<le> 2 ^ 53 \<Longrightarrow> toNumber n = Fin (of_int n)"
  by (simp add: toNumber_def toDouble_int)







lemma boundedLe_refl: "boundedLe k a b \<Longrightarrow> boundedLe k a a \<and> boundedLe k b b"
  by (cases a; cases b) simp_all









lemma toNumber_1: "toNumber 1 = Fin 1"
  using toNumber_safe[of 1] by simp

subsection \<open>Hunk headers\<close>

lemma stripPrefix_Some: "stripPrefix p s = Some r \<Longrightarrow> s = p @ r"
  by (induction p s rule: stripPrefix.induct) (auto split: if_splits)

lemma number_Some: "number s = Some (ds, r) \<Longrightarrow> s = ds @ r \<and> digitString ds"
  by (auto simp: number_def digitString_def list_all_iff split: if_splits dest: set_takeWhileD)

lemma optCount_eq: "optCount s = (m, r) \<Longrightarrow> s = optText m @ r \<and> optDigitString m"
  by (auto simp: optCount_def optText_def optDigitString_def
           split: list.splits if_splits option.splits dest: number_Some)

lemma countOr1_num:
  "(case m of None \<Rightarrow> Fin 1 | Some ds \<Rightarrow> toNumber (digitsValue ds)) = toNumber (countOr1 m)"
  by (cases m) (simp_all add: countOr1_def toNumber_1)

lemma hunkHeaderAt_Some:
  assumes "hunkHeaderAt s = Some raw"
  shows "\<exists>a b c d rest.
           s = ''@@ -'' @ a @ optText b @ '' +'' @ c @ optText d @ '' @@'' @ rest \<and>
           digitString a \<and> optDigitString b \<and> digitString c \<and> optDigitString d \<and>
           oldStart raw = toNumber (digitsValue a) \<and> oldLines raw = toNumber (countOr1 b) \<and>
           newStart raw = toNumber (digitsValue c) \<and> newLines raw = toNumber (countOr1 d) \<and> lines raw = []"
proof -
  from assms obtain r0 a r1 b r2 r3 c r4 d r5 r6 where
    s0: "stripPrefix ''@@ -'' s = Some r0" and n1: "number r0 = Some (a, r1)" and
    o1: "optCount r1 = (b, r2)" and s1: "stripPrefix '' +'' r2 = Some r3" and
    n2: "number r3 = Some (c, r4)" and o2: "optCount r4 = (d, r5)" and
    s2: "stripPrefix '' @@'' r5 = Some r6" and
    raw: "raw = \<lparr> oldStart = toNumber (digitsValue a), oldLines = toNumber (countOr1 b),
                   newStart = toNumber (digitsValue c), newLines = toNumber (countOr1 d), lines = [] \<rparr>"
    unfolding hunkHeaderAt_def countOr1_num
    by (auto split: option.splits prod.splits)
  have "s = ''@@ -'' @ a @ optText b @ '' +'' @ c @ optText d @ '' @@'' @ r6"
    using stripPrefix_Some[OF s0] number_Some[OF n1] optCount_eq[OF o1]
      stripPrefix_Some[OF s1] number_Some[OF n2] optCount_eq[OF o2] stripPrefix_Some[OF s2]
    by simp
  moreover have "digitString a" "optDigitString b" "digitString c" "optDigitString d"
    using number_Some[OF n1] optCount_eq[OF o1] number_Some[OF n2] optCount_eq[OF o2] by simp_all
  ultimately show ?thesis using raw
    by (intro exI[of _ a] exI[of _ b] exI[of _ c] exI[of _ d] exI[of _ r6]) simp
qed

lemma matchHunkHeader_Some:
  "matchHunkHeader s = Some raw \<Longrightarrow> \<exists>pre t. s = pre @ t \<and> hunkHeaderAt t = Some raw"
proof (induction s rule: matchHunkHeader.induct)
  case (1 s)
  show ?case
  proof (cases "hunkHeaderAt s")
    case (Some r)
    with "1.prems" have "r = raw" by simp
    with Some show ?thesis by (intro exI[of _ "[]"] exI[of _ s]) simp
  next
    case None
    show ?thesis
    proof (cases s)
      case Nil
      with None "1.prems" show ?thesis by simp
    next
      case (Cons c cs)
      with None "1.prems" have "matchHunkHeader cs = Some raw" by simp
      from "1.IH"[OF None Cons this] obtain pre t where
        "cs = pre @ t" "hunkHeaderAt t = Some raw" by blast
      with Cons show ?thesis by (intro exI[of _ "c # pre"] exI[of _ t]) simp
    qed
  qed
qed


lemma stripPrefix_append: "stripPrefix p (p @ r) = Some r"
  by (induction p) auto

lemma number_digits:
  assumes "digitString ds" "r = [] \<or> \<not> isDigit (hd r)"
  shows "number (ds @ r) = Some (ds, r)"
proof -
  have a: "\<forall>c\<in>set ds. isDigit c" "ds \<noteq> []"
    using assms(1) by (auto simp: digitString_def list_all_iff)
  have "takeWhile isDigit (ds @ r) = ds" "dropWhile isDigit (ds @ r) = r"
    using a assms(2) by (cases r; simp add: takeWhile_append2 dropWhile_append2)+
  with a show ?thesis by (simp add: number_def)
qed

lemma not_digit: "\<not> isDigit CHR '' ''" "\<not> isDigit CHR '',''"
  by (simp_all add: isDigit_def)

lemma optCount_text:
  assumes "optDigitString m" "r \<noteq> []" "hd r = CHR '' ''"
  shows "optCount (optText m @ r) = (m, r)"
proof (cases m)
  case None
  with assms show ?thesis by (cases r) (auto simp: optCount_def optText_def)
next
  case (Some ds)
  with assms have "number (ds @ r) = Some (ds, r)"
    by (intro number_digits) (auto simp: optDigitString_def not_digit)
  with Some show ?thesis by (simp add: optCount_def optText_def)
qed

lemma hunkHeaderAt_steps:
  assumes "stripPrefix ''@@ -'' s = Some r0" "number r0 = Some (a, r1)" "optCount r1 = (b, r2)"
    "stripPrefix '' +'' r2 = Some r3" "number r3 = Some (c, r4)" "optCount r4 = (d, r5)"
    "stripPrefix '' @@'' r5 = Some r6"
  shows "hunkHeaderAt s =
           Some \<lparr> oldStart = toNumber (digitsValue a), oldLines = toNumber (countOr1 b),
                  newStart = toNumber (digitsValue c), newLines = toNumber (countOr1 d), lines = [] \<rparr>"
  using assms by (simp add: hunkHeaderAt_def countOr1_num)

text \<open>
  The other way round: a header \<^verbatim>\<open>@@ -a[,b] +c[,d] @@\<close> at the head of a line is matched,
  with these numbers.
\<close>

lemma hunkHeader_parses:
  assumes "digitString a" "optDigitString b" "digitString c" "optDigitString d"
  shows "matchHunkHeader (''@@ -'' @ a @ optText b @ '' +'' @ c @ optText d @ '' @@'' @ rest) =
           Some \<lparr> oldStart = toNumber (digitsValue a), oldLines = toNumber (countOr1 b),
                  newStart = toNumber (digitsValue c), newLines = toNumber (countOr1 d), lines = [] \<rparr>"
proof -
  let ?r5 = "'' @@'' @ rest"
  let ?r4 = "optText d @ ?r5"
  let ?r3 = "c @ ?r4"
  let ?r2 = "'' +'' @ ?r3"
  let ?r1 = "optText b @ ?r2"
  let ?r0 = "a @ ?r1"
  have n1: "number ?r0 = Some (a, ?r1)"
    using assms(1) by (intro number_digits) (cases b; simp add: optText_def not_digit)+
  have o1: "optCount ?r1 = (b, ?r2)"
    using assms(2) by (intro optCount_text) simp_all
  have n2: "number ?r3 = Some (c, ?r4)"
    using assms(3) by (intro number_digits) (cases d; simp add: optText_def not_digit)+
  have o2: "optCount ?r4 = (d, ?r5)"
    using assms(4) by (intro optCount_text) simp_all
  have s0: "stripPrefix ''@@ -'' (''@@ -'' @ ?r0) = Some ?r0" by (rule stripPrefix_append)
  have s1: "stripPrefix '' +'' ?r2 = Some ?r3" by (rule stripPrefix_append)
  have s2: "stripPrefix '' @@'' ?r5 = Some rest" by (rule stripPrefix_append)
  have "hunkHeaderAt (''@@ -'' @ ?r0) =
           Some \<lparr> oldStart = toNumber (digitsValue a), oldLines = toNumber (countOr1 b),
                  newStart = toNumber (digitsValue c), newLines = toNumber (countOr1 d), lines = [] \<rparr>"
    by (rule hunkHeaderAt_steps[OF s0 n1 o1 s1 n2 o2 s2])
  then show ?thesis by (subst matchHunkHeader.simps) simp
qed

subsection \<open>Cyclomatic complexity\<close>

text \<open>
  C4.  The claim counts \<^verbatim>\<open>else if (\<close> once; the code counts it twice, once by the pattern
  of \<^verbatim>\<open>if (\<close> and once by the pattern of \<^verbatim>\<open>else if (\<close>: the metric of \<^verbatim>\<open>else if (x) {}\<close>
  is 3, where that of \<^verbatim>\<open>if (x) {}\<close> is 2.
\<close>

theorem C4_else_if_counted_twice:
  "calculateCyclomaticComplexity ''if (x) {}'' = 2 \<and>
   calculateCyclomaticComplexity ''else if (x) {}'' = 3 \<and>
   map (\<lambda>p. countMatches p None ''else if (x) {}'') decisionPatterns =
     [1, 1, 0, 0, 0, 0, 0, 0, 0, 0]"
  by code_simp

subsection \<open>Flags\<close>

lemma checkLoop_eq:
  "checkLoop m cs acc = acc @ map (flagOf m) (filter (\<lambda>(k, th). int (metricOf m k) > th) cs)"
  by (induction cs arbitrary: acc) (auto simp: flagOf_def)

lemma checkThresholds_eq:
  "checkThresholds m t =
     map (flagOf m) (filter (\<lambda>(k, th). int (metricOf m k) > th) (checks t))"
  by (simp add: checkThresholds_def checkLoop_eq)

lemma checks_set: "set (checks t) = {(k, thresholdOf t k) | k. True}"
proof -
  have "\<And>k. (k, thresholdOf t k) \<in> set (checks t)"
    subgoal for k by (cases k) (simp_all add: checks_def thresholdOf_def)
    done
  moreover have "\<And>c. c \<in> set (checks t) \<Longrightarrow> \<exists>k. c = (k, thresholdOf t k)"
    by (auto simp: checks_def thresholdOf_def)
  ultimately show ?thesis by auto
qed

text \<open>
  C8.  There is a flag for a metric exactly when its value is greater than its threshold;
  a flag carries that value and that threshold, and it is critical exactly when the
  value is greater than 1.5 times the threshold, a warning otherwise.
\<close>

theorem C8_flags:
  "(\<forall>k. (\<exists>f. f \<in> set (checkThresholds m t) \<and> metric f = k) =
         (int (metricOf m k) > thresholdOf t k)) \<and>
   (\<forall>f. f \<in> set (checkThresholds m t) \<longrightarrow>
      fl_value f = metricOf m (metric f) \<and> threshold f = thresholdOf t (metric f) \<and>
      int (fl_value f) > threshold f \<and>
      (severity f = Critical) = (real (fl_value f) > 1.5 * real_of_int (threshold f)) \<and>
      (severity f = Warning) = (\<not> real (fl_value f) > 1.5 * real_of_int (threshold f)))"
proof (intro conjI allI impI)
  fix k
  show "(\<exists>f. f \<in> set (checkThresholds m t) \<and> metric f = k) =
        (int (metricOf m k) > thresholdOf t k)"
    unfolding checkThresholds_eq set_map set_filter checks_set
    by (auto simp: flagOf_def)
next
  fix f assume "f \<in> set (checkThresholds m t)"
  then obtain k where k: "f = flagOf m (k, thresholdOf t k)" "int (metricOf m k) > thresholdOf t k"
    unfolding checkThresholds_eq set_map set_filter checks_set by auto
  from k show "fl_value f = metricOf m (metric f)" by (simp add: flagOf_def)
  from k show "threshold f = thresholdOf t (metric f)" by (simp add: flagOf_def)
  from k show "int (fl_value f) > threshold f" by (simp add: flagOf_def)
  from k show "(severity f = Critical) = (real (fl_value f) > 1.5 * real_of_int (threshold f))"
    by (simp add: flagOf_def mult.commute)
  from k show "(severity f = Warning) = (\<not> real (fl_value f) > 1.5 * real_of_int (threshold f))"
    by (simp add: flagOf_def mult.commute)
qed

text \<open>
  On the sample: 4 over 3 is a warning, 16 over 10 is critical, 15 over 10 is a warning
  (15 is not greater than 1.5 times 10), and 2 over 4 and 50 over 50 raise no flag.
\<close>

theorem C8_flags_witness:
  "checkThresholds sampleMetrics sampleThresholds =
     [ \<lparr> metric = NestingDepth, fl_value = 4, threshold = 3, severity = Warning \<rparr>,
       \<lparr> metric = CyclomaticComplexity, fl_value = 16, threshold = 10, severity = Critical \<rparr>,
       \<lparr> metric = DependencyCount, fl_value = 15, threshold = 10, severity = Warning \<rparr> ] \<and>
   \<lparr> metric = CyclomaticComplexity, fl_value = 16, threshold = 10, severity = Critical \<rparr>
     \<in> set (checkThresholds sampleMetrics sampleThresholds) \<and>
   (\<exists>f. f \<in> set (checkThresholds sampleMetrics sampleThresholds) \<and> metric f = LineCount) =
     (int (metricOf sampleMetrics LineCount) > thresholdOf sampleThresholds LineCount) \<and>
   (severity \<lparr> metric = CyclomaticComplexity, fl_value = 16, threshold = 10, severity = Critical \<rparr>
      = Critical) =
     (real (fl_value \<lparr> metric = CyclomaticComplexity, fl_value = 16, threshold = 10,
                       severity = Critical \<rparr>) >
      1.5 * real_of_int (threshold \<lparr> metric = CyclomaticComplexity, fl_value = 16,
                                     threshold = 10, severity = Critical \<rparr>))"
proof -
  have v: "checkThresholds sampleMetrics sampleThresholds =
     [ \<lparr> metric = NestingDepth, fl_value = 4, threshold = 3, severity = Warning \<rparr>,
       \<lparr> metric = CyclomaticComplexity, fl_value = 16, threshold = 10, severity = Critical \<rparr>,
       \<lparr> metric = DependencyCount, fl_value = 15, threshold = 10, severity = Warning \<rparr> ]"
    by (simp add: checkThresholds_def checks_def sampleMetrics_def sampleThresholds_def)
  have h: "\<lparr> metric = CyclomaticComplexity, fl_value = 16, threshold = 10, severity = Critical \<rparr>
     \<in> set (checkThresholds sampleMetrics sampleThresholds)"
    by (simp add: v)
  from C8_flags[of sampleMetrics sampleThresholds] h v show ?thesis by blast
qed

subsection \<open>The score\<close>














subsection \<open>The scan of the diff\<close>

lemma foldl_invariant:
  "P s \<Longrightarrow> (\<And>s x. P s \<Longrightarrow> x \<in> set xs \<Longrightarrow> P (f s x)) \<Longrightarrow> P (foldl f s xs)"
  by (induction xs arbitrary: s) auto

text \<open>The five things a turn of the loop can do.\<close>

lemma parseLine_cases:
  obtains
    (fileHdr) "isFileHeader line"
      "parseLine st line =
         \<lparr> doneFiles = pushFile (doneFiles st) (pushHunk (currentFile st) (currentHunk st)),
           currentFile =
             Some \<lparr> filename = (case matchFileHeader line of None \<Rightarrow> ''unknown'' | Some g \<Rightarrow> g),
                    hunks = [], additions = 0, deletions = 0 \<rparr>,
           currentHunk = None \<rparr>"
  | (skipped) "parseLine st line = st"
  | (hunkHdr) raw where "\<not> isFileHeader line" "startsWith line ''@@''"
      "matchHunkHeader line = Some raw"
      "parseLine st line =
         st\<lparr> currentFile := pushHunk (currentFile st) (currentHunk st),
             currentHunk := Some raw \<rparr>"
  | (badHdr) "\<not> isFileHeader line" "startsWith line ''@@''" "matchHunkHeader line = None"
      "parseLine st line = st\<lparr> currentFile := pushHunk (currentFile st) (currentHunk st) \<rparr>"
  | (contentLine) h where "currentHunk st = Some h" "isContentLine line"
      "parseLine st line =
         st\<lparr> currentHunk := Some (h\<lparr>lines := lines h @ [line]\<rparr>),
             currentFile := map_option (countLine line) (currentFile st) \<rparr>"
proof (cases "isFileHeader line")
  case True
  then show ?thesis by (intro fileHdr) (simp_all add: parseLine_def isFileHeader_def)
next
  case nf: False
  show ?thesis
  proof (cases "isSkipped line")
    case True
    with nf show ?thesis
      by (intro skipped) (simp add: parseLine_def isFileHeader_def isSkipped_def)
  next
    case ns: False
    show ?thesis
    proof (cases "startsWith line ''@@''")
      case True
      show ?thesis
      proof (cases "matchHunkHeader line")
        case None
        with nf ns True show ?thesis
          by (intro badHdr) (simp_all add: parseLine_def isFileHeader_def isSkipped_def)
      next
        case (Some raw)
        with nf ns True show ?thesis
          by (intro hunkHdr[of raw]) (simp_all add: parseLine_def isFileHeader_def isSkipped_def)
      qed
    next
      case nh: False
      show ?thesis
      proof (cases "currentHunk st")
        case None
        with nf ns nh show ?thesis
          by (intro skipped) (simp add: parseLine_def isFileHeader_def isSkipped_def)
      next
        case (Some h)
        show ?thesis
        proof (cases "isContentLine line")
          case True
          with nf ns nh Some show ?thesis
            by (intro contentLine[of h])
               (simp_all add: parseLine_def isFileHeader_def isSkipped_def)
        next
          case False
          with nf ns nh Some show ?thesis
            by (intro skipped) (simp add: parseLine_def isFileHeader_def isSkipped_def)
        qed
      qed
    qed
  qed
qed

lemma pushFile_set: "f \<in> set (pushFile fs cf) \<Longrightarrow> f \<in> set fs \<or> cf = Some f"
  by (auto simp: pushFile_def split: option.splits)

lemma matchHunkHeader_lines: "matchHunkHeader s = Some raw \<Longrightarrow> lines raw = []"
  using matchHunkHeader_Some hunkHeaderAt_Some by blast

lemma add_not_del: "isAddition l \<Longrightarrow> \<not> isDeletion l"
  by (cases l) (auto simp: isAddition_def isDeletion_def)

lemma convertLines_eq:
  "convertLines ls (a, d, c) =
     (a @ map (drop 1) (filter isAddition ls), d @ map (drop 1) (filter isDeletion ls),
      c @ filter kept ls)"
  by (induction ls arbitrary: a d c) (auto simp: kept_def add_not_del)

lemma convertHunk_fields:
  "hk_additions (convertHunk raw fn) = map (drop 1) (filter isAddition (lines raw))"
  "hk_deletions (convertHunk raw fn) = map (drop 1) (filter isDeletion (lines raw))"
  "content (convertHunk raw fn) = join_nl (filter kept (lines raw))"
  by (simp_all add: convertHunk_def convertLines_eq)

subsection \<open>Splitting and joining lines\<close>

lemma split_nl_no_LF: "l \<in> set (split_nl s) \<Longrightarrow> LF \<notin> set l"
  by (induction s arbitrary: l) (auto split: list.splits if_splits)

lemma split_nl_line: "LF \<notin> set l \<Longrightarrow> split_nl l = [l]"
  by (induction l) auto

lemma split_nl_append: "LF \<notin> set l \<Longrightarrow> split_nl (l @ LF # r) = l # split_nl r"
  by (induction l) (auto split: list.splits)

lemma split_join:
  "ls \<noteq> [] \<Longrightarrow> (\<forall>l\<in>set ls. LF \<notin> set l) \<Longrightarrow> split_nl (join_nl ls) = ls"
  by (induction ls rule: join_nl.induct) (auto simp: split_nl_line split_nl_append)

subsection \<open>Re-parsing the content of a hunk\<close>

lemma filter_kept:
  "filter isAddition (filter kept ls) = filter isAddition ls"
  "filter isDeletion (filter kept ls) = filter isDeletion ls"
  by (induction ls) (auto simp: kept_def)

lemma filter_kept_nil:
  "filter kept ls = [] \<Longrightarrow> filter isAddition ls = [] \<and> filter isDeletion ls = []"
  by (induction ls) (auto simp: kept_def split: if_splits)

lemma reclassify_empty_line: "reclassify [[]] = ([], [])"
  by (simp add: reclassify_def isAddition_def isDeletion_def)

lemma convertHunk_roundTrip:
  assumes "\<forall>l\<in>set (lines raw). LF \<notin> set l"
  shows "hunkRoundTrip (convertHunk raw fn)"
proof (cases "filter kept (lines raw) = []")
  case True
  then have "filter isAddition (lines raw) = []" "filter isDeletion (lines raw) = []"
    using filter_kept_nil[of "lines raw"] by simp_all
  with True show ?thesis
    by (simp add: hunkRoundTrip_def convertHunk_fields reclassify_empty_line)
next
  case False
  have "\<forall>l\<in>set (filter kept (lines raw)). LF \<notin> set l" using assms by simp
  from split_join[OF False this] show ?thesis
    by (simp add: hunkRoundTrip_def convertHunk_fields reclassify_def filter_kept
             del: filter_filter)
qed

lemma pushHunk_roundTrip:
  assumes "\<forall>f. cf = Some f \<longrightarrow> (\<forall>h\<in>set (hunks f). hunkRoundTrip h)"
    "\<forall>r. ch = Some r \<longrightarrow> (\<forall>l\<in>set (lines r). LF \<notin> set l)"
    "pushHunk cf ch = Some f"
  shows "\<forall>h\<in>set (hunks f). hunkRoundTrip h"
  using assms
  by (auto simp: pushHunk_def convertHunk_roundTrip split: option.splits)

lemma inv10_step:
  assumes "inv10 st" "LF \<notin> set line"
  shows "inv10 (parseLine st line)"
proof -
  have p: "\<And>f. pushHunk (currentFile st) (currentHunk st) = Some f \<Longrightarrow>
             \<forall>h\<in>set (hunks f). hunkRoundTrip h"
    using assms(1) pushHunk_roundTrip[of "currentFile st" "currentHunk st"]
    unfolding inv10_def by blast
  show ?thesis
  proof (cases st line rule: parseLine_cases)
    case fileHdr
    with assms p show ?thesis
      unfolding inv10_def by (auto dest!: pushFile_set)
  next
    case skipped
    with assms show ?thesis by simp
  next
    case (hunkHdr raw)
    with assms p matchHunkHeader_lines[of line raw] show ?thesis
      unfolding inv10_def by auto
  next
    case badHdr
    with assms p show ?thesis
      unfolding inv10_def by auto
  next
    case (contentLine h)
    with assms show ?thesis
      unfolding inv10_def by (auto simp: countLine_def)
  qed
qed

lemma inv10_init: "inv10 initialState"
  by (simp add: inv10_def initialState_def)

lemma inv10_finish:
  assumes "inv10 st" "f \<in> set (files (finish st))" "h \<in> set (hunks f)"
  shows "hunkRoundTrip h"
proof -
  have p: "\<And>f. pushHunk (currentFile st) (currentHunk st) = Some f \<Longrightarrow>
             \<forall>h\<in>set (hunks f). hunkRoundTrip h"
    using assms(1) pushHunk_roundTrip[of "currentFile st" "currentHunk st"]
    unfolding inv10_def by blast
  from assms(2) have
    "f \<in> set (doneFiles st) \<or> pushHunk (currentFile st) (currentHunk st) = Some f"
    by (auto simp: finish_def dest: pushFile_set)
  with p assms show ?thesis unfolding inv10_def by blast
qed

text \<open>
  C10.  For every hunk that \<^verbatim>\<open>parseDiff\<close> produces, splitting its content into lines and
  classifying the lines again gives the additions and the deletions of the hunk, in
  order.
\<close>

theorem C10_hunk_round_trip:
  "\<forall>f\<in>set (files (parseDiff diffText)). \<forall>h\<in>set (hunks f).
     reclassify (split_nl (content h)) = (hk_additions h, hk_deletions h)"
proof -
  have "inv10 (foldl parseLine initialState (split_nl diffText))"
    by (rule foldl_invariant[where P = inv10])
       (auto intro: inv10_init inv10_step dest: split_nl_no_LF)
  then show ?thesis
    unfolding parseDiff_def using inv10_finish hunkRoundTrip_def by blast
qed

text \<open>The first hunk of the sample diff: two additions and one deletion.\<close>

theorem C10_hunk_round_trip_witness:
  "hd (files (parseDiff sampleDiff)) \<in> set (files (parseDiff sampleDiff)) \<and>
   hd (hunks (hd (files (parseDiff sampleDiff)))) \<in> set (hunks (hd (files (parseDiff sampleDiff)))) \<and>
   reclassify (split_nl (content (hd (hunks (hd (files (parseDiff sampleDiff))))))) =
     (hk_additions (hd (hunks (hd (files (parseDiff sampleDiff))))),
      hk_deletions (hd (hunks (hd (files (parseDiff sampleDiff)))))) \<and>
   reclassify (split_nl (content (hd (hunks (hd (files (parseDiff sampleDiff))))))) =
     ([''const b = 2;'', ''return a + b;''], [''return a;''])"
proof -
  have f: "files (parseDiff sampleDiff) \<noteq> []" by code_simp
  have h: "hunks (hd (files (parseDiff sampleDiff))) \<noteq> []" by code_simp
  have v: "reclassify (split_nl (content (hd (hunks (hd (files (parseDiff sampleDiff))))))) =
     ([''const b = 2;'', ''return a + b;''], [''return a;''])" by code_simp
  from C10_hunk_round_trip[of sampleDiff] hd_in_set[OF f] hd_in_set[OF h] v
  show ?thesis by blast
qed

subsection \<open>The line range of a hunk\<close>




























subsection \<open>The counters of a file\<close>

lemma pushHunk_balanced:
  assumes "\<forall>f. cf = Some f \<longrightarrow> openBalanced f ch" "pushHunk cf ch = Some f"
  shows "balanced f"
  using assms
  by (auto simp: pushHunk_def openBalanced_def balanced_def pendingAdditions_def
                 pendingDeletions_def convertHunk_fields split: option.splits)

lemma balanced_open_empty: "balanced f \<Longrightarrow> lines raw = [] \<Longrightarrow> openBalanced f (Some raw)"
  by (simp add: balanced_def openBalanced_def pendingAdditions_def pendingDeletions_def)

lemma countLine_open:
  "openBalanced f (Some h) \<Longrightarrow>
   openBalanced (countLine line f) (Some (h\<lparr>lines := lines h @ [line]\<rparr>))"
  by (auto simp: openBalanced_def countLine_def pendingAdditions_def pendingDeletions_def
           dest: add_not_del)

lemma inv2_step:
  assumes "inv2 st" "startsWith line ''@@'' \<longrightarrow> matchHunkHeader line \<noteq> None"
  shows "inv2 (parseLine st line)"
proof -
  have p: "\<And>f. pushHunk (currentFile st) (currentHunk st) = Some f \<Longrightarrow> balanced f"
    using assms(1) pushHunk_balanced[of "currentFile st" "currentHunk st"]
    unfolding inv2_def by blast
  show ?thesis
  proof (cases st line rule: parseLine_cases)
    case fileHdr
    with assms p show ?thesis
      unfolding inv2_def
      by (auto dest!: pushFile_set
               simp: openBalanced_def pendingAdditions_def pendingDeletions_def)
  next
    case skipped
    with assms show ?thesis by simp
  next
    case (hunkHdr raw)
    with assms p matchHunkHeader_lines[of line raw] show ?thesis
      unfolding inv2_def by (auto intro: balanced_open_empty)
  next
    case badHdr
    with assms show ?thesis by simp
  next
    case (contentLine h)
    with assms show ?thesis
      unfolding inv2_def by (auto intro: countLine_open)
  qed
qed

lemma inv2_init: "inv2 initialState"
  by (simp add: inv2_def initialState_def)

lemma inv2_finish:
  assumes "inv2 st" "f \<in> set (files (finish st))"
  shows "balanced f"
proof -
  have p: "\<And>f. pushHunk (currentFile st) (currentHunk st) = Some f \<Longrightarrow> balanced f"
    using assms(1) pushHunk_balanced[of "currentFile st" "currentHunk st"]
    unfolding inv2_def by blast
  from assms(2) have
    "f \<in> set (doneFiles st) \<or> pushHunk (currentFile st) (currentHunk st) = Some f"
    by (auto simp: finish_def dest: pushFile_set)
  with p assms show ?thesis unfolding inv2_def by blast
qed

text \<open>
  C2.  For a diff whose \<open>@@\<close> lines are all hunk headers, the counters of every file
  that \<^verbatim>\<open>parseDiff\<close> produces are the numbers of added and of removed lines of its hunks.
\<close>

theorem C2_file_counters:
  assumes "wellFormedHeaders diffText"
  shows "\<forall>f\<in>set (files (parseDiff diffText)).
           additions f = sum_list (map (\<lambda>h. length (hk_additions h)) (hunks f)) \<and>
           deletions f = sum_list (map (\<lambda>h. length (hk_deletions h)) (hunks f))"
proof -
  have "inv2 (foldl parseLine initialState (split_nl diffText))"
    using assms
    by (intro foldl_invariant[where P = inv2] inv2_init inv2_step)
       (auto simp: wellFormedHeaders_def list_all_iff)
  then show ?thesis
    unfolding parseDiff_def using inv2_finish balanced_def by blast
qed

text \<open>The sample diff: one file, two hunks, three additions and one deletion.\<close>

theorem C2_file_counters_witness:
  "wellFormedHeaders sampleDiff \<and>
   hd (files (parseDiff sampleDiff)) \<in> set (files (parseDiff sampleDiff)) \<and>
   additions (hd (files (parseDiff sampleDiff))) =
     sum_list (map (\<lambda>h. length (hk_additions h)) (hunks (hd (files (parseDiff sampleDiff))))) \<and>
   deletions (hd (files (parseDiff sampleDiff))) =
     sum_list (map (\<lambda>h. length (hk_deletions h)) (hunks (hd (files (parseDiff sampleDiff))))) \<and>
   additions (hd (files (parseDiff sampleDiff))) = 3 \<and>
   deletions (hd (files (parseDiff sampleDiff))) = 1 \<and>
   length (hunks (hd (files (parseDiff sampleDiff)))) = 2"
proof -
  have w: "wellFormedHeaders sampleDiff" by code_simp
  have f: "files (parseDiff sampleDiff) \<noteq> []" by code_simp
  have v: "additions (hd (files (parseDiff sampleDiff))) = 3"
    "deletions (hd (files (parseDiff sampleDiff))) = 1"
    "length (hunks (hd (files (parseDiff sampleDiff)))) = 2" by code_simp+
  from C2_file_counters[OF w] hd_in_set[OF f] w v show ?thesis by blast
qed

subsection \<open>Malformed input\<close>

text \<open>
  Without an open hunk, a line that is neither a file header nor an \<open>@@\<close> line changes
  nothing; and as long as no file header was read, there is no file.
\<close>

lemma content_without_hunk:
  assumes "currentHunk st = None" "\<not> isFileHeader line" "\<not> startsWith line ''@@''"
  shows "parseLine st line = st"
  using assms by (simp add: parseLine_def isFileHeader_def)

lemma no_file_step:
  assumes "doneFiles st = []" "currentFile st = None" "\<not> isFileHeader line"
  shows "doneFiles (parseLine st line) = [] \<and> currentFile (parseLine st line) = None"
  using assms
  by (cases st line rule: parseLine_cases) (auto simp: pushHunk_def)

lemma no_file_header_no_file:
  assumes "list_all (\<lambda>line. \<not> isFileHeader line) (split_nl diffText)"
  shows "files (parseDiff diffText) = []"
proof -
  have "doneFiles (foldl parseLine initialState (split_nl diffText)) = [] \<and>
        currentFile (foldl parseLine initialState (split_nl diffText)) = None"
    using assms
    by (intro foldl_invariant[where P = "\<lambda>st. doneFiles st = [] \<and> currentFile st = None"])
       (auto simp: initialState_def list_all_iff dest: no_file_step)
  then show ?thesis
    by (simp add: parseDiff_def finish_def pushHunk_def pushFile_def)
qed

text \<open>
  C9.  \<^verbatim>\<open>parseDiff\<close> is total, and content lines without an open hunk and hunk headers
  before a file header add nothing.  An \<open>@@\<close> line that the pattern does not match does
  add something: the open hunk is pushed and stays open, so it is pushed again later,
  with the lines read since.  With the line \<^verbatim>\<open>@@ bogus\<close> between the two added lines, the
  file has the hunks \<open>[a]\<close> and \<open>[a, b]\<close>; without it, the one hunk \<open>[a, b]\<close>.
\<close>

theorem C9_malformed_header_repeats_hunk:
  "map (\<lambda>f. (filename f, additions f, map hk_additions (hunks f)))
       (files (parseDiff malformedHeaderDiff)) =
     [(''x.ts'', 2, [[''a''], [''a'', ''b'']])] \<and>
   map (\<lambda>f. (filename f, additions f, map hk_additions (hunks f)))
       (files (parseDiff repairedHeaderDiff)) =
     [(''x.ts'', 2, [[''a'', ''b'']])]"
  by code_simp

subsection \<open>The likelihood of the report\<close>

lemma allPatterns_length:
  "length (allPatterns fas) =
     sum_list
       (map (\<lambda>f. sum_list
                   (map (\<lambda>h. case patterns h of None \<Rightarrow> 0 | Some p \<Rightarrow> length (patternsFound p))
                        (fa_hunks f)))
            fas)"
proof -
  have h: "\<And>hs. length (concat (map findingsOf hs)) =
      sum_list (map (\<lambda>h. case patterns h of None \<Rightarrow> 0 | Some p \<Rightarrow> length (patternsFound p)) hs)"
    subgoal for hs
      by (induction hs) (auto simp: findingsOf_def split: option.splits)
    done
  show ?thesis
    unfolding allPatterns_def
    by (induction fas) (auto simp: h)
qed

lemma analyzeFiles_likelihood:
  assumes "analyzeFiles rv ac opts tsFiles w = (result, w')"
  shows "aiCodeLikelihood result =
           (if totalFindings result > 5 then High
            else if totalFindings result > 2 then Medium else Low)"
  using assms
  by (auto simp: analyzeFiles_def aiLikelihood_def totalFindings_def allPatterns_length)

lemma runReview_Inr:
  assumes "runReview rv ac ready diffContent opts w = (Inr result, w')"
  shows "\<not> isBlank diffContent \<and> sourceFiles diffContent \<noteq> [] \<and>
         analyzeFiles rv ac (effectiveOptions ready opts) (sourceFiles diffContent) w =
           (result, w')"
  using assms
  by (auto simp: runReview_def sourceFiles_def split: if_splits list.splits prod.splits)

lemma runReview_completes:
  assumes "\<not> isBlank diffContent" "sourceFiles diffContent \<noteq> []"
  shows "\<exists>result w'. runReview rv ac ready diffContent opts w = (Inr result, w')"
  using assms
  by (auto simp: runReview_def sourceFiles_def split: list.splits prod.splits)

text \<open>
  C6.  The likelihood of a report is high exactly when the hunks of its files have more
  than 5 pattern findings in all, medium exactly when they have 3 to 5, and low
  otherwise.
\<close>

theorem C6_likelihood:
  assumes "runReview rv ac ready diffContent opts w = (Inr result, w')"
  shows "(aiCodeLikelihood result = High) = (totalFindings result > 5) \<and>
         (aiCodeLikelihood result = Medium) =
           (totalFindings result > 2 \<and> totalFindings result \<le> 5) \<and>
         (aiCodeLikelihood result = Low) = (totalFindings result \<le> 2)"
  using analyzeFiles_likelihood[OF conjunct2[OF conjunct2[OF runReview_Inr[OF assms]]]]
  by auto

text \<open>The sample diff with two findings for each of its two hunks: medium.\<close>

theorem C6_likelihood_witness:
  "\<exists>result w'.
     runReview summaryDownReviewer sampleAnalyzer True sampleDiff sampleOptions 0 =
       (Inr result, w') \<and>
     totalFindings result = 4 \<and> aiCodeLikelihood result = Medium \<and>
     (aiCodeLikelihood result = High) = (totalFindings result > 5) \<and>
     (aiCodeLikelihood result = Medium) =
       (totalFindings result > 2 \<and> totalFindings result \<le> 5) \<and>
     (aiCodeLikelihood result = Low) = (totalFindings result \<le> 2)"
proof -
  have b: "\<not> isBlank sampleDiff" by code_simp
  have s: "sourceFiles sampleDiff \<noteq> []" by code_simp
  from runReview_completes[OF b s, where rv = summaryDownReviewer and ac = sampleAnalyzer
      and ready = True and opts = sampleOptions and w = 0]
  obtain result w' where
    r: "runReview summaryDownReviewer sampleAnalyzer True sampleDiff sampleOptions 0 =
          (Inr result, w')" by blast
  have "(case runReview summaryDownReviewer sampleAnalyzer True sampleDiff sampleOptions 0 of
           (Inr x, n) \<Rightarrow> totalFindings x | (Inl e, n) \<Rightarrow> 0) = 4" by code_simp
  with r have t: "totalFindings result = 4" by simp
  from C6_likelihood[OF r] t r show ?thesis by auto
qed

subsection \<open>The budget of hunks\<close>

lemma analyzeHunk_hunk: "hunk (fst (analyzeHunk rv ac hk fname opts w)) = hk"
  by (simp add: analyzeHunk_def patternsStep_def summaryStep_def complexityStep_def
           split: prod.splits sum.splits)

lemma hunkLoop_spec:
  assumes "hunkLoop rv ac opts (Some m) fname hs (has, st) = (has', st')"
  shows "map hunk has' = map hunk has @ take (nat (m - int (processedHunks st))) hs \<and>
         processedHunks st' =
           processedHunks st + length (take (nat (m - int (processedHunks st))) hs) \<and>
         ls_totalHunks st' =
           ls_totalHunks st + length (take (nat (m - int (processedHunks st))) hs) \<and>
         fileAnalyses st' = fileAnalyses st"
  using assms
proof (induction hs arbitrary: has st)
  case Nil
  then show ?case by simp
next
  case (Cons hk rest)
  show ?case
  proof (cases "budgetSpent (processedHunks st) (Some m)")
    case True
    then have "nat (m - int (processedHunks st)) = 0" by (simp add: budgetSpent_def)
    with True Cons.prems show ?thesis by simp
  next
    case False
    obtain a w1 where a: "analyzeHunk rv ac hk fname opts (world st) = (a, w1)"
      by (cases "analyzeHunk rv ac hk fname opts (world st)")
    then have ah: "hunk a = hk" using analyzeHunk_hunk[of rv ac hk fname opts "world st"] by simp
    let ?st1 = "st\<lparr> processedHunks := processedHunks st + 1,
                    ls_totalHunks := ls_totalHunks st + 1, world := w1 \<rparr>"
    from False a Cons.prems have
      "hunkLoop rv ac opts (Some m) fname rest (has @ [a], ?st1) = (has', st')" by simp
    from Cons.IH[OF this] have ih:
      "map hunk has' = map hunk (has @ [a]) @ take (nat (m - int (processedHunks ?st1))) rest"
      "processedHunks st' =
         processedHunks ?st1 + length (take (nat (m - int (processedHunks ?st1))) rest)"
      "ls_totalHunks st' =
         ls_totalHunks ?st1 + length (take (nat (m - int (processedHunks ?st1))) rest)"
      "fileAnalyses st' = fileAnalyses ?st1" by simp_all
    from False obtain n where n: "nat (m - int (processedHunks st)) = Suc n"
      by (cases "nat (m - int (processedHunks st))") (auto simp: budgetSpent_def)
    then have n': "nat (m - int (processedHunks ?st1)) = n" by simp
    show ?thesis using ih ah unfolding n n' by simp
  qed
qed

lemma sliceTo_take: "take (nat k) (sliceTo xs (Some k)) = take (nat k) xs"
  by (simp add: sliceTo_def)

lemma fileStep_spec:
  assumes "fileStep rv ac opts (Some m) st file = st'"
  shows "analysedHunks (fileAnalyses st') =
           analysedHunks (fileAnalyses st) @
             take (nat (m - int (processedHunks st))) (hunks file) \<and>
         processedHunks st' =
           processedHunks st + length (take (nat (m - int (processedHunks st))) (hunks file)) \<and>
         ls_totalHunks st' =
           ls_totalHunks st + length (take (nat (m - int (processedHunks st))) (hunks file)) \<and>
         map fa_filename (fileAnalyses st') = map fa_filename (fileAnalyses st) @ [filename file]"
proof -
  let ?sl = "sliceTo (hunks file) (Some (m - int (processedHunks st)))"
  obtain has st1 where l: "hunkLoop rv ac opts (Some m) (filename file) ?sl ([], st) = (has, st1)"
    by (cases "hunkLoop rv ac opts (Some m) (filename file) ?sl ([], st)")
  from hunkLoop_spec[OF l] have h:
    "map hunk has = take (nat (m - int (processedHunks st))) (hunks file)"
    "processedHunks st1 =
       processedHunks st + length (take (nat (m - int (processedHunks st))) (hunks file))"
    "ls_totalHunks st1 =
       ls_totalHunks st + length (take (nat (m - int (processedHunks st))) (hunks file))"
    "fileAnalyses st1 = fileAnalyses st"
    by (simp_all add: sliceTo_take)
  from assms l have "st' = st1\<lparr> fileAnalyses := fileAnalyses st1 @
      [\<lparr> fa_filename = filename file, fa_hunks = has, overallComplexity = meanComplexity has \<rparr>] \<rparr>"
    by (simp add: fileStep_def)
  with h show ?thesis by (simp add: analysedHunks_def)
qed

lemma take_budget_step:
  "nat (m - int (p + length (take (nat (m - int p)) hs))) = nat (m - int p) - length hs"
  by (simp add: min_def) linarith

lemma filesLoop_spec:
  "analysedHunks (fileAnalyses (foldl (fileStep rv ac opts (Some m)) st fs)) =
     analysedHunks (fileAnalyses st) @
       take (nat (m - int (processedHunks st))) (concat (map hunks fs)) \<and>
   ls_totalHunks (foldl (fileStep rv ac opts (Some m)) st fs) =
     ls_totalHunks st + length (take (nat (m - int (processedHunks st))) (concat (map hunks fs))) \<and>
   map fa_filename (fileAnalyses (foldl (fileStep rv ac opts (Some m)) st fs)) =
     map fa_filename (fileAnalyses st) @ map filename fs"
proof (induction fs arbitrary: st)
  case Nil
  show ?case by simp
next
  case (Cons f fs)
  let ?st1 = "fileStep rv ac opts (Some m) st f"
  note s = fileStep_spec[OF refl, of rv ac opts m st f]
  have k: "nat (m - int (processedHunks ?st1)) =
             nat (m - int (processedHunks st)) - length (hunks f)"
    using s take_budget_step[of m "processedHunks st" "hunks f"] by simp
  show ?case
    using Cons.IH[of ?st1] s unfolding k by (simp add: take_add[symmetric] del: take_add)
qed

lemma fileStep_NaN:
  "fileStep rv ac opts None st file =
     st\<lparr> fileAnalyses := fileAnalyses st @
       [\<lparr> fa_filename = filename file, fa_hunks = [], overallComplexity = meanComplexity [] \<rparr>] \<rparr>"
  by (simp add: fileStep_def sliceTo_def)

lemma filesLoop_NaN:
  "analysedHunks (fileAnalyses (foldl (fileStep rv ac opts None) st fs)) =
     analysedHunks (fileAnalyses st) \<and>
   ls_totalHunks (foldl (fileStep rv ac opts None) st fs) = ls_totalHunks st \<and>
   map fa_filename (fileAnalyses (foldl (fileStep rv ac opts None) st fs)) =
     map fa_filename (fileAnalyses st) @ map filename fs"
  by (induction fs arbitrary: st) (simp_all add: fileStep_NaN analysedHunks_def)

lemma analyzeFiles_budget:
  assumes "analyzeFiles rv ac opts tsFiles w = (result, w')"
  shows "analysedHunks (rr_files result) =
           take (budget (parseInt10 (opt_maxHunks opts))) (concat (map hunks tsFiles)) \<and>
         totalHunks result = length (analysedHunks (rr_files result)) \<and>
         map fa_filename (rr_files result) = map filename tsFiles"
proof (cases "parseInt10 (opt_maxHunks opts)")
  case None
  with assms filesLoop_NaN[of rv ac opts
      "\<lparr> fileAnalyses = [], ls_totalHunks = 0, processedHunks = 0, world = w \<rparr>" tsFiles]
  show ?thesis
    by (auto simp: analyzeFiles_def budget_def analysedHunks_def)
next
  case (Some m)
  let ?st = "foldl (fileStep rv ac opts (Some m))
      \<lparr> fileAnalyses = [], ls_totalHunks = 0, processedHunks = 0, world = w \<rparr> tsFiles"
  from filesLoop_spec[of rv ac opts m
      "\<lparr> fileAnalyses = [], ls_totalHunks = 0, processedHunks = 0, world = w \<rparr>" tsFiles]
  have a: "analysedHunks (fileAnalyses ?st) = take (nat m) (concat (map hunks tsFiles))"
    and t: "ls_totalHunks ?st = length (take (nat m) (concat (map hunks tsFiles)))"
    and n: "map fa_filename (fileAnalyses ?st) = map filename tsFiles"
    by (simp_all add: analysedHunks_def)
  from assms Some have r: "rr_files result = fileAnalyses ?st"
    "totalHunks result = ls_totalHunks ?st"
    by (auto simp: analyzeFiles_def)
  show ?thesis
    unfolding r using a t n Some by (simp add: budget_def)
qed

lemma effectiveOptions_maxHunks: "opt_maxHunks (effectiveOptions ready opts) = opt_maxHunks opts"
  by (simp add: effectiveOptions_def)

lemma runReview_budget:
  assumes "runReview rv ac ready diffContent opts w = (Inr result, w')"
  shows "analysedHunks (rr_files result) =
           take (budget (parseInt10 (opt_maxHunks opts)))
             (concat (map hunks (sourceFiles diffContent))) \<and>
         totalHunks result = length (analysedHunks (rr_files result)) \<and>
         map fa_filename (rr_files result) = map filename (sourceFiles diffContent)"
  using analyzeFiles_budget[OF conjunct2[OF conjunct2[OF runReview_Inr[OF assms]]]]
  by (simp add: effectiveOptions_maxHunks)

text \<open>
  C5.  The hunks that are analysed are the first \<open>maxHunks\<close> hunks of the files of
  interest, in the order of the diff and counted across the files; \<^verbatim>\<open>totalHunks\<close> is their
  number.  With 25 hunks and the budget 20, the first 20 are analysed.
\<close>

theorem C5_budget:
  assumes "runReview rv ac ready diffContent opts w = (Inr result, w')"
  shows "analysedHunks (rr_files result) =
           take (budget (parseInt10 (opt_maxHunks opts)))
             (concat (map hunks (sourceFiles diffContent))) \<and>
         totalHunks result = length (analysedHunks (rr_files result)) \<and>
         totalHunks result \<le> budget (parseInt10 (opt_maxHunks opts)) \<and>
         (length (concat (map hunks (sourceFiles diffContent))) = 25 \<and>
          parseInt10 (opt_maxHunks opts) = Some 20 \<longrightarrow>
            totalHunks result = 20 \<and>
            analysedHunks (rr_files result) =
              take 20 (concat (map hunks (sourceFiles diffContent))))"
  using runReview_budget[OF assms] by (auto simp: budget_def)

text \<open>
  A diff of two files, with 15 and with 10 hunks, and the budget 20: the 15 hunks of the
  first file and the first 5 of the second are analysed.
\<close>

theorem C5_budget_witness:
  "\<exists>result w'.
     runReview offlineReviewer sampleAnalyzer True budgetDiff sampleOptions 0 =
       (Inr result, w') \<and>
     length (concat (map hunks (sourceFiles budgetDiff))) = 25 \<and>
     parseInt10 (opt_maxHunks sampleOptions) = Some 20 \<and>
     totalHunks result = 20 \<and>
     analysedHunks (rr_files result) = take 20 (concat (map hunks (sourceFiles budgetDiff))) \<and>
     map (\<lambda>f. (fa_filename f, length (fa_hunks f))) (rr_files result) =
       [(''big.ts'', 15), (''other.ts'', 5)]"
proof -
  have b: "\<not> isBlank budgetDiff" by code_simp
  have s: "sourceFiles budgetDiff \<noteq> []" by code_simp
  have n: "length (concat (map hunks (sourceFiles budgetDiff))) = 25" by code_simp
  have m: "parseInt10 (opt_maxHunks sampleOptions) = Some 20" by code_simp
  from runReview_completes[OF b s, where rv = offlineReviewer and ac = sampleAnalyzer
      and ready = True and opts = sampleOptions and w = 0]
  obtain result w' where
    r: "runReview offlineReviewer sampleAnalyzer True budgetDiff sampleOptions 0 =
          (Inr result, w')" by blast
  have "(case runReview offlineReviewer sampleAnalyzer True budgetDiff sampleOptions 0 of
           (Inr x, k) \<Rightarrow> map (\<lambda>f. (fa_filename f, length (fa_hunks f))) (rr_files x)
         | (Inl e, k) \<Rightarrow> []) = [(''big.ts'', 15), (''other.ts'', 5)]" by code_simp
  with r have v: "map (\<lambda>f. (fa_filename f, length (fa_hunks f))) (rr_files result) =
       [(''big.ts'', 15), (''other.ts'', 5)]" by simp
  from C5_budget[OF r] n m v r show ?thesis by auto
qed

subsection \<open>A reviewer that fails\<close>








end
